theory Spec2Isabelle
  imports Main "HOL-Library.Monad_Syntax"
begin

section \<open>Python values used by the RINEX 3 observation reader\<close>

text \<open>
  The embedding follows \<^verbatim>\<open>src/georinex/obs3.py\<close>. A text stream is the list of its
  remaining lines, a \<^verbatim>\<open>dict\<close> is an association list in insertion order, and every
  exception the source can raise is a value of \<open>error\<close>.
\<close>

datatype error =
  ValueError | KeyError | AssertionError | IndexError | TypeError | OverflowError | AttributeError

subsection \<open>Strings\<close>

definition py_slice :: "string \<Rightarrow> nat \<Rightarrow> nat \<Rightarrow> string" where
  \<comment> \<open>\<^verbatim>\<open>s[i:j]\<close> for non-negative bounds: clipped to the string, never an error.\<close>
  "py_slice s i j = take (j - i) (drop i s)"

definition startswith :: "string \<Rightarrow> string \<Rightarrow> bool" where
  \<comment> \<open>\<^verbatim>\<open>s.startswith(p)\<close>\<close>
  "startswith s p = (take (length p) s = p)"

fun contains :: "string \<Rightarrow> string \<Rightarrow> bool" where
  \<comment> \<open>\<^verbatim>\<open>p in s\<close> on strings (substring test)\<close>
  "contains p [] = (p = [])"
| "contains p (c # cs) = (startswith (c # cs) p \<or> contains p cs)"

definition isspace :: "char \<Rightarrow> bool" where
  \<comment> \<open>the characters up to U+00FF that \<^verbatim>\<open>str.isspace\<close>, \<^verbatim>\<open>strip\<close> and \<^verbatim>\<open>split\<close> take for blanks\<close>
  "isspace c = (c \<in> set [CHR 0x09, CHR 0x0A, CHR 0x0B, CHR 0x0C, CHR 0x0D,
                          CHR 0x1C, CHR 0x1D, CHR 0x1E, CHR 0x1F, CHR 0x20, CHR 0x85, CHR 0xA0])"

definition strip :: "string \<Rightarrow> string" where
  "strip s = rev (dropWhile isspace (rev (dropWhile isspace s)))"

fun split_aux :: "string \<Rightarrow> string \<Rightarrow> string list" where
  "split_aux cur [] = (if cur = [] then [] else [cur])"
| "split_aux cur (c # cs) =
     (if isspace c then (if cur = [] then split_aux [] cs else cur # split_aux [] cs)
      else split_aux (cur @ [c]) cs)"

definition split :: "string \<Rightarrow> string list" where
  \<comment> \<open>\<^verbatim>\<open>s.split()\<close>: the maximal runs of non-blank characters\<close>
  "split s = split_aux [] s"

definition replace_char :: "char \<Rightarrow> char \<Rightarrow> string \<Rightarrow> string" where
  \<comment> \<open>\<^verbatim>\<open>s.replace(a, b)\<close> for one-character \<open>a\<close> and \<open>b\<close>\<close>
  "replace_char a b s = map (\<lambda>c. if c = a then b else c) s"

subsection \<open>\<^verbatim>\<open>int(s)\<close>\<close>

definition isdigit :: "char \<Rightarrow> bool" where
  "isdigit c = (c \<in> set ''0123456789'')"

definition digit_val :: "char \<Rightarrow> nat" where
  "digit_val c = of_char c - 48"

fun int_digits :: "nat \<Rightarrow> string \<Rightarrow> nat option" where
  \<comment> \<open>the digits after the first one; a single underscore may separate two digits\<close>
  "int_digits acc [] = Some acc"
| "int_digits acc [c] = (if isdigit c then Some (10 * acc + digit_val c) else None)"
| "int_digits acc (c # d # cs) =
     (if isdigit c then int_digits (10 * acc + digit_val c) (d # cs)
      else if c = CHR ''_'' \<and> isdigit d then int_digits acc (d # cs)
      else None)"

definition py_nat :: "string \<Rightarrow> nat option" where
  "py_nat s = (case s of [] \<Rightarrow> None
               | c # cs \<Rightarrow> if isdigit c then int_digits (digit_val c) cs else None)"

definition int_space :: "char \<Rightarrow> bool" where
  \<comment> \<open>the blanks \<^verbatim>\<open>int\<close> skips around the digits: not the separators U+001C to U+001F\<close>
  "int_space c = (c \<in> set [CHR 0x09, CHR 0x0A, CHR 0x0B, CHR 0x0C, CHR 0x0D, CHR 0x20,
                            CHR 0x85, CHR 0xA0])"

definition py_int :: "string \<Rightarrow> int option" where
  \<comment> \<open>\<^verbatim>\<open>int(s)\<close> in base 10; \<open>None\<close> is \<^verbatim>\<open>ValueError\<close>\<close>
  "py_int s =
     (case rev (dropWhile int_space (rev (dropWhile int_space s))) of [] \<Rightarrow> None
      | c # cs \<Rightarrow>
          if c = CHR ''-'' then map_option (\<lambda>n. - int n) (py_nat cs)
          else if c = CHR ''+'' then map_option int (py_nat cs)
          else map_option int (py_nat (c # cs)))"

subsection \<open>Dictionaries and streams\<close>

fun dict_set :: "('k \<times> 'v) list \<Rightarrow> 'k \<Rightarrow> 'v \<Rightarrow> ('k \<times> 'v) list" where
  \<comment> \<open>\<^verbatim>\<open>d[k] = v\<close>: an existing key keeps its position, a new key goes last\<close>
  "dict_set [] k v = [(k, v)]"
| "dict_set ((k', v') # d) k v =
     (if k' = k then (k, v) # d else (k', v') # dict_set d k v)"

definition keys :: "('k \<times> 'v) list \<Rightarrow> 'k list" where
  "keys d = map fst d"

fun readline :: "string list \<Rightarrow> string \<times> string list" where
  \<comment> \<open>\<^verbatim>\<open>f.readline()\<close>: the empty string at the end of the stream\<close>
  "readline [] = ([], [])"
| "readline (l # f) = (l, f)"

section \<open>Floats, dates and timestamp extraction \<^verbatim>\<open>_timeobs\<close>\<close>

text \<open>
  A \<^verbatim>\<open>datetime\<close> is the number of microseconds since 0001-01-01 00:00:00 and a
  \<^verbatim>\<open>timedelta\<close> a number of microseconds, both of type \<open>int\<close>. The constructor checks the
  ranges of its arguments as Python does.

  Binary floating point is outside the embedding. The places where the source converts
  text to \<^verbatim>\<open>float\<close> go through a parameter \<open>F\<close>: \<open>float_of F s\<close> is \<^verbatim>\<open>float(s)\<close> and
  \<open>usec_of F x\<close> is \<^verbatim>\<open>int(x % 1 * 1000000)\<close>, where \<open>None\<close> is the \<^verbatim>\<open>ValueError\<close> either raises;
  \<open>int_of F x\<close> is \<^verbatim>\<open>int(x)\<close>, which raises \<^verbatim>\<open>ValueError\<close> for a NaN and \<^verbatim>\<open>OverflowError\<close> for an
  infinity. The microseconds of a float lie between 0 and 1000000, so they always fit the C
  integer that \<^verbatim>\<open>datetime\<close> converts them to. \<open>geodetic F pos\<close> is the outcome of the
  optional converter \<^verbatim>\<open>ecef2geodetic(*pos)\<close> of another package: the exception it raises, or
  \<open>None\<close> when it returns or is not installed.
\<close>

datatype fint = NotANumber | Infinite | Whole int

record 'f floatlib =
  float_of :: "string \<Rightarrow> 'f option"
  usec_of :: "'f \<Rightarrow> int option"
  int_of :: "'f \<Rightarrow> fint"
  geodetic :: "'f list \<Rightarrow> error option"

definition is_leap :: "int \<Rightarrow> bool" where
  "is_leap y = (y mod 4 = 0 \<and> (y mod 100 \<noteq> 0 \<or> y mod 400 = 0))"

definition days_in_month :: "int \<Rightarrow> int \<Rightarrow> int" where
  "days_in_month y m =
     (if m = 2 then (if is_leap y then 29 else 28)
      else if m \<in> set [4, 6, 9, 11] then 30 else 31)"

definition days_before_year :: "int \<Rightarrow> int" where
  "days_before_year y = (y - 1) * 365 + (y - 1) div 4 - (y - 1) div 100 + (y - 1) div 400"

definition days_before_month :: "int \<Rightarrow> int \<Rightarrow> int" where
  "days_before_month y m = sum_list (map (days_in_month y) [1..m - 1])"

definition datetime :: "int \<Rightarrow> int \<Rightarrow> int \<Rightarrow> int \<Rightarrow> int \<Rightarrow> int \<Rightarrow> int \<Rightarrow> error + int" where
  "datetime y mo d h mi s us =
     (if 1 \<le> y \<and> y \<le> 9999 \<and> 1 \<le> mo \<and> mo \<le> 12 \<and> 1 \<le> d \<and> d \<le> days_in_month y mo
         \<and> 0 \<le> h \<and> h \<le> 23 \<and> 0 \<le> mi \<and> mi \<le> 59 \<and> 0 \<le> s \<and> s \<le> 59 \<and> 0 \<le> us \<and> us \<le> 999999
      then Inr (((((days_before_year y + days_before_month y mo + d - 1) * 24 + h) * 60 + mi) * 60
                  + s) * 1000000 + us)
      else Inl ValueError)"

definition max_us :: int where
  \<comment> \<open>one microsecond past \<^verbatim>\<open>datetime.max\<close>\<close>
  "max_us = 3652059 * 86400 * 1000000"

definition dt_add :: "int \<Rightarrow> int \<Rightarrow> error + int" where
  \<comment> \<open>\<^verbatim>\<open>datetime + timedelta\<close>\<close>
  "dt_add t d = (if 0 \<le> t + d \<and> t + d < max_us then Inr (t + d) else Inl OverflowError)"

definition timeobs :: "'f floatlib \<Rightarrow> string \<Rightarrow> error + int" where
  "timeobs F ln =
     (if \<not> startswith ln ''> '' then Inl ValueError
      else
        (case do {
                y \<leftarrow> py_int (py_slice ln 2 6);
                mo \<leftarrow> py_int (py_slice ln 7 9);
                d \<leftarrow> py_int (py_slice ln 10 12);
                h \<leftarrow> py_int (py_slice ln 13 15);
                mi \<leftarrow> py_int (py_slice ln 16 18);
                s \<leftarrow> py_int (py_slice ln 19 21);
                x \<leftarrow> float_of F (py_slice ln 19 29);
                us \<leftarrow> usec_of F x;
                Some (datetime y mo d h mi s us)
              } of
           None \<Rightarrow> Inl ValueError
         | Some r \<Rightarrow> r))"

section \<open>The header parser \<^verbatim>\<open>obsheader3\<close>\<close>

datatype hval = Str string | NonStr

datatype colsel = SelectAll | Mask "bool list"

record header =
  labels :: "(string \<times> hval) list"
  hfields :: "(string \<times> string list) list"
  fields_ind :: "(string \<times> colsel) list"
  Fmax :: int

definition obs_label :: string where
  "obs_label = ''SYS / # / OBS TYPES''"

function read_cont :: "int \<Rightarrow> string list \<Rightarrow> string list \<Rightarrow> error + (string list \<times> string list)" where
  "read_cont n codes f =
     (if 0 < n then
        (case readline f of (ln, f') \<Rightarrow>
           if contains obs_label (drop 60 ln)
           then read_cont (n - 13) (codes @ split (py_slice ln 6 60)) f'
           else Inl AssertionError)
      else Inr (codes, f))"
  by pat_completeness auto
termination
  by (relation "measure (\<lambda>(n, codes, f). nat n)") auto

declare read_cont.simps [simp del]

definition obs_types :: "string \<Rightarrow> string list \<Rightarrow> error + (string \<times> string list \<times> int \<times> string list)" where
  "obs_types c f =
     (case py_int (py_slice c 3 6) of
        None \<Rightarrow> Inl ValueError
      | Some N \<Rightarrow>
          (case read_cont (N - 13) (split (py_slice c 6 60)) f of
             Inl e \<Rightarrow> Inl e
           | Inr (codes, f') \<Rightarrow>
               if int (length codes) = N then Inr (take 1 c, codes, N, f')
               else Inl AssertionError))"

definition add_label :: "(string \<times> hval) list \<Rightarrow> string \<Rightarrow> string \<Rightarrow> error + (string \<times> hval) list" where
  "add_label d k c =
     (case map_of d k of
        None \<Rightarrow> Inr (dict_set d k (Str c))
      | Some (Str s) \<Rightarrow> Inr (dict_set d k (Str (s @ '' '' @ c)))
      | Some NonStr \<Rightarrow> Inl TypeError)"

function hdr_loop :: "header \<Rightarrow> string list \<Rightarrow> error + (header \<times> string list)" where
  "hdr_loop h [] = Inr (h, [])"
| "hdr_loop h (ln # f) =
     (if contains ''END OF HEADER'' ln then Inr (h, f)
      else if contains obs_label (py_slice ln 60 80) then
        (case obs_types (take 60 ln) f of
           Inl e \<Rightarrow> Inl e
         | Inr (k, codes, N, f') \<Rightarrow>
             hdr_loop (h\<lparr>hfields := dict_set (hfields h) k codes, Fmax := max N (Fmax h)\<rparr>) f')
      else
        (case add_label (labels h) (strip (py_slice ln 60 80)) (take 60 ln) of
           Inl e \<Rightarrow> Inl e
         | Inr d \<Rightarrow> hdr_loop (h\<lparr>labels := d\<rparr>) f))"
  by pat_completeness auto
termination
proof (relation "measure (\<lambda>(h, f). length f)")
  have cont: "read_cont n codes f = Inr (codes', f') \<Longrightarrow> length f' \<le> length f"
    for n codes f codes' f'
  proof (induction n codes f rule: read_cont.induct)
    case (1 n codes f)
    show ?case
    proof (cases "0 < n")
      case False
      with "1.prems" show ?thesis by (simp add: read_cont.simps [of n])
    next
      case True
      obtain ln g where rl: "readline f = (ln, g)" by (cases "readline f")
      have g: "length g \<le> length f" using rl by (cases f) auto
      from True rl "1.prems" have c: "contains obs_label (drop 60 ln)"
        by (simp add: read_cont.simps [of n] split: if_splits)
      with True rl "1.prems"
      have "read_cont (n - 13) (codes @ split (py_slice ln 6 60)) g = Inr (codes', f')"
        by (simp add: read_cont.simps [of n])
      from "1.IH"[OF True rl[symmetric] c this] g show ?thesis by simp
    qed
  qed
  have types: "obs_types c f = Inr (k, codes, N, f') \<Longrightarrow> length f' \<le> length f"
    for c f k codes N f'
    by (auto simp: obs_types_def split: option.splits sum.splits prod.splits if_splits
             dest: cont)
  show "wf (measure (\<lambda>(h, f). length f))" by simp
  show "((h\<lparr>hfields := dict_set (hfields h) k codes, Fmax := max N (Fmax h)\<rparr>, f'), h, ln # f)
          \<in> measure (\<lambda>(h, f). length f)"
    if "obs_types (take 60 ln) f = Inr x" "(k, y) = x" "(codes, z) = y" "(N, f') = z"
    for h ln f x k y codes z N f'
    using that types [of "take 60 ln" f k codes N f'] by auto
  show "((h\<lparr>labels := d\<rparr>, f), h, ln # f) \<in> measure (\<lambda>(h, f). length f)"
    for h d ln f
    by simp
qed

declare hdr_loop.simps [simp del]

text \<open>
  The system filter. \<open>use\<close> is \<open>None\<close> for \<^verbatim>\<open>None\<close>, and otherwise the sequence in
  which iterating the caller's container yields its elements (for a list the list itself,
  for a \<^verbatim>\<open>set\<close> the set's own iteration order).
\<close>

definition select_systems ::
  "string list option \<Rightarrow> (string \<times> string list) list \<Rightarrow> error + (string \<times> string list) list" where
  "select_systems use flds =
     (case use of
        None \<Rightarrow> Inr flds
      | Some u \<Rightarrow>
          if u = [] then Inr flds
          else if \<not> (\<exists>k \<in> set u. k \<in> set (keys flds)) then Inl KeyError
          else Inr (foldl (\<lambda>d k. case map_of flds k of None \<Rightarrow> d | Some v \<Rightarrow> dict_set d k v) [] u))"

text \<open>
  The measurement filter. \<open>meas_ind\<close> is the boolean vector \<^verbatim>\<open>ind\<close> after the two nested
  loops; \<open>np_select\<close> is boolean indexing \<^verbatim>\<open>np.array(xs)[ind].tolist()\<close>, where numpy's
  fixed-width string array returns every element without its trailing NUL characters
  (\<open>np_str\<close>).
\<close>

definition mark_step :: "string \<Rightarrow> nat \<times> string \<Rightarrow> bool list \<Rightarrow> bool list" where
  \<comment> \<open>the body of \<^verbatim>\<open>for i, field in enumerate(fields[sk])\<close>\<close>
  "mark_step m p ind =
     (case p of (i, field) \<Rightarrow> if startswith field m then ind[i := True] else ind)"

definition meas_ind :: "string list \<Rightarrow> string list \<Rightarrow> bool list" where
  "meas_ind meas codes =
     fold (\<lambda>m. fold (mark_step m) (enumerate 0 codes)) meas (replicate (length codes) False)"

definition np_str :: "string \<Rightarrow> string" where
  "np_str s = rev (dropWhile (\<lambda>c. c = CHR 0x00) (rev s))"

definition np_select :: "string list \<Rightarrow> bool list \<Rightarrow> string list" where
  "np_select xs ind = map (np_str \<circ> fst) (filter snd (zip xs ind))"

text \<open>
  \<^verbatim>\<open>np.empty(n, dtype=bool)\<close> allocates without initialising: slot \<open>i\<close> holds whatever the
  memory held, \<open>U i\<close>. The loop \<^verbatim>\<open>sysind[sk][j*3 : j*3+3] = i\<close> then writes three slots per
  element of \<^verbatim>\<open>ind\<close>; a slice assignment past the end of the array is clipped.
\<close>

definition np_empty :: "(nat \<Rightarrow> bool) \<Rightarrow> nat \<Rightarrow> bool list" where
  "np_empty U n = map U [0..<n]"

definition mask_step :: "nat \<times> bool \<Rightarrow> bool list \<Rightarrow> bool list" where
  \<comment> \<open>the body of \<^verbatim>\<open>for j, i in enumerate(ind)\<close>\<close>
  "mask_step p a = (case p of (j, i) \<Rightarrow> a[j * 3 := i, j * 3 + 1 := i, j * 3 + 2 := i])"

definition fill_mask :: "bool list \<Rightarrow> bool list \<Rightarrow> bool list" where
  "fill_mask ind a = fold mask_step (enumerate 0 ind) a"

definition select_meas ::
  "(string \<Rightarrow> nat \<Rightarrow> bool) \<Rightarrow> string list option \<Rightarrow> header \<Rightarrow> header" where
  "select_meas U meas h =
     (case meas of
        None \<Rightarrow> h\<lparr>fields_ind := map (\<lambda>(k, codes). (k, SelectAll)) (hfields h)\<rparr>
      | Some ms \<Rightarrow>
          h\<lparr>hfields := map (\<lambda>(sk, codes). (sk, np_select codes (meas_ind ms codes))) (hfields h),
            fields_ind := map (\<lambda>(sk, codes).
                (sk, Mask (fill_mask (meas_ind ms codes) (np_empty (U sk) (nat (Fmax h * 3))))))
                (hfields h)\<rparr>)"

text \<open>
  The three best-effort blocks between the header loop and the filters. Each catches
  \<^verbatim>\<open>KeyError\<close> and \<^verbatim>\<open>ValueError\<close> only, so any other exception leaves \<^verbatim>\<open>obsheader3\<close>. The values
  they store (position, time of first observation, interval) are attributes and are not
  kept: \<open>Some e\<close> is the exception that escapes a block, \<open>None\<close> says that the block is left
  normally. A header value that is not a string (\<open>NonStr\<close>: a number or \<^verbatim>\<open>None\<close> that
  \<^verbatim>\<open>rinexinfo\<close> stored) has no \<^verbatim>\<open>split\<close> and cannot be sliced. \<^verbatim>\<open>datetime\<close> converts its arguments
  to C integers, raising \<^verbatim>\<open>OverflowError\<close>, before it checks their ranges.
\<close>

definition caught :: "error \<Rightarrow> bool" where
  \<comment> \<open>\<^verbatim>\<open>except (KeyError, ValueError)\<close>\<close>
  "caught e = (e = KeyError \<or> e = ValueError)"

definition position_block :: "'f floatlib \<Rightarrow> (string \<times> hval) list \<Rightarrow> error option" where
  "position_block F hdr =
     (case map_of hdr ''APPROX POSITION XYZ'' of
        None \<Rightarrow> None
      | Some NonStr \<Rightarrow> Some AttributeError
      | Some (Str s) \<Rightarrow>
          (case those (map (float_of F) (split s)) of
             None \<Rightarrow> None
           | Some xs \<Rightarrow>
               if length (take 3 xs) = 3 then
                 (case geodetic F (take 3 xs) of
                    None \<Rightarrow> None
                  | Some e \<Rightarrow> if caught e then None else Some e)
               else None))"

definition int_field :: "string \<Rightarrow> error + int" where
  "int_field s = (case py_int s of None \<Rightarrow> Inl ValueError | Some n \<Rightarrow> Inr n)"

definition float_int :: "'f floatlib \<Rightarrow> string \<Rightarrow> error + int" where
  \<comment> \<open>\<^verbatim>\<open>int(float(s))\<close>\<close>
  "float_int F s =
     (case float_of F s of
        None \<Rightarrow> Inl ValueError
      | Some x \<Rightarrow>
          (case int_of F x of
             NotANumber \<Rightarrow> Inl ValueError
           | Infinite \<Rightarrow> Inl OverflowError
           | Whole n \<Rightarrow> Inr n))"

definition float_usec :: "'f floatlib \<Rightarrow> string \<Rightarrow> error + int" where
  \<comment> \<open>\<^verbatim>\<open>int(float(s) % 1 * 1000000)\<close>\<close>
  "float_usec F s =
     (case float_of F s of
        None \<Rightarrow> Inl ValueError
      | Some x \<Rightarrow> (case usec_of F x of None \<Rightarrow> Inl ValueError | Some u \<Rightarrow> Inr u))"

definition c_int :: "int \<Rightarrow> bool" where
  \<comment> \<open>the values of a C \<^verbatim>\<open>int\<close>\<close>
  "c_int n = (- 2147483648 \<le> n \<and> n \<le> 2147483647)"

definition first_obs :: "'f floatlib \<Rightarrow> string \<Rightarrow> error + int" where
  \<comment> \<open>the \<^verbatim>\<open>datetime(...)\<close> call on \<^verbatim>\<open>t0s\<close>, its arguments evaluated from left to right\<close>
  "first_obs F t0s =
     (case int_field (py_slice t0s 0 6) of Inl e \<Rightarrow> Inl e | Inr y \<Rightarrow>
     (case int_field (py_slice t0s 6 12) of Inl e \<Rightarrow> Inl e | Inr mo \<Rightarrow>
     (case int_field (py_slice t0s 12 18) of Inl e \<Rightarrow> Inl e | Inr d \<Rightarrow>
     (case int_field (py_slice t0s 18 24) of Inl e \<Rightarrow> Inl e | Inr h \<Rightarrow>
     (case int_field (py_slice t0s 24 30) of Inl e \<Rightarrow> Inl e | Inr mi \<Rightarrow>
     (case float_int F (py_slice t0s 30 36) of Inl e \<Rightarrow> Inl e | Inr sec \<Rightarrow>
     (case float_usec F (py_slice t0s 30 43) of Inl e \<Rightarrow> Inl e | Inr us \<Rightarrow>
        if c_int sec then datetime y mo d h mi sec us else Inl OverflowError)))))))"

definition first_obs_block :: "'f floatlib \<Rightarrow> (string \<times> hval) list \<Rightarrow> error option" where
  "first_obs_block F hdr =
     (case map_of hdr ''TIME OF FIRST OBS'' of
        None \<Rightarrow> None
      | Some NonStr \<Rightarrow> Some TypeError
      | Some (Str t0s) \<Rightarrow>
          (case first_obs F t0s of
             Inl e \<Rightarrow> if caught e then None else Some e
           | Inr t \<Rightarrow> None))"

definition interval_block :: "(string \<times> hval) list \<Rightarrow> error option" where
  \<comment> \<open>\<^verbatim>\<open>float(hdr["INTERVAL"][:10])\<close>: for a string, nothing but the caught \<^verbatim>\<open>ValueError\<close>\<close>
  "interval_block hdr =
     (case map_of hdr ''INTERVAL'' of
        None \<Rightarrow> None
      | Some NonStr \<Rightarrow> Some TypeError
      | Some (Str s) \<Rightarrow> None)"

definition best_effort :: "'f floatlib \<Rightarrow> (string \<times> hval) list \<Rightarrow> error option" where
  "best_effort F hdr =
     (case position_block F hdr of
        Some e \<Rightarrow> Some e
      | None \<Rightarrow>
          (case first_obs_block F hdr of
             Some e \<Rightarrow> Some e
           | None \<Rightarrow> interval_block hdr))"

text \<open>
  \<open>obsheader3 F U info f use meas\<close>: \<open>info\<close> is the dictionary that \<^verbatim>\<open>rinexinfo(f)\<close> returned
  and \<open>f\<close> the lines of the stream that it left unread (\<^verbatim>\<open>rinexinfo\<close> belongs to another
  module). Appending a header line to a value of \<open>info\<close> that is not a string is a
  \<^verbatim>\<open>TypeError\<close>. The result is the header with the lines that follow \<^verbatim>\<open>END OF HEADER\<close>.
\<close>

definition obsheader3 ::
  "'f floatlib \<Rightarrow> (string \<Rightarrow> nat \<Rightarrow> bool) \<Rightarrow> (string \<times> hval) list \<Rightarrow> string list \<Rightarrow>
   string list option \<Rightarrow> string list option \<Rightarrow> error + (header \<times> string list)" where
  "obsheader3 F U info f use meas =
     (case hdr_loop \<lparr>labels = info, hfields = [], fields_ind = [], Fmax = 0\<rparr> f of
        Inl e \<Rightarrow> Inl e
      | Inr (h, f') \<Rightarrow>
          (case best_effort F (labels h) of
             Some e \<Rightarrow> Inl e
           | None \<Rightarrow>
               (case select_systems use (hfields h) of
                  Inl e \<Rightarrow> Inl e
                | Inr flds \<Rightarrow> Inr (select_meas U meas (h\<lparr>hfields := flds\<rparr>), f'))))"

section \<open>Epoch assembly \<^verbatim>\<open>_epoch\<close> and \<^verbatim>\<open>_indicators\<close>\<close>

text \<open>
  The numeric grid that \<^verbatim>\<open>np.genfromtxt\<close> decodes is not modelled. A data variable holds the
  index of the column of \<^verbatim>\<open>garr\<close> it is taken from, and a dataset is its labels: the names
  of its data variables and the values of its \<^verbatim>\<open>time\<close> and \<^verbatim>\<open>sv\<close> coordinates. What numpy and
  xarray raise on their own (a grid with fewer rows than satellites, conflicting values in
  a merge) is not modelled either: an \<open>Inr\<close> result is what the source returns when the
  libraries raise nothing. xarray's ordering of a joined coordinate is not modelled;
  \<open>list_union\<close> keeps first appearances.
\<close>

record dataset =
  ds_vars :: "string list"
  ds_time :: "int list"
  ds_sv :: "string list"

definition indicators :: "(string \<times> nat) list \<Rightarrow> string \<Rightarrow> nat \<times> nat \<Rightarrow> (string \<times> nat) list" where
  \<comment> \<open>\<open>arr\<close> is the pair of columns \<^verbatim>\<open>arr[:, 0]\<close>, \<^verbatim>\<open>arr[:, 1]\<close>\<close>
  "indicators d k arr =
     (let d1 = (if startswith k ''L1'' \<or> startswith k ''L2''
                then dict_set d (k @ ''lli'') (fst arr) else d)
      in dict_set d1 (k @ ''ssi'') (snd arr))"

definition dsf_step :: "bool \<Rightarrow> nat \<times> string \<Rightarrow> (string \<times> nat) list \<Rightarrow> (string \<times> nat) list" where
  \<comment> \<open>the body of \<^verbatim>\<open>for i, k in enumerate(hdr["fields"][sk])\<close>\<close>
  "dsf_step ui ik dsf =
     (case ik of (i, k) \<Rightarrow>
        let dsf1 = dict_set dsf k (i * 3)
        in if ui then indicators dsf1 k (i * 3 + 1, i * 3 + 2) else dsf1)"

definition epoch_dsf :: "string list \<Rightarrow> bool \<Rightarrow> (string \<times> nat) list" where
  "epoch_dsf codes ui = fold (dsf_step ui) (enumerate 0 codes) []"

definition sat_rows :: "string \<Rightarrow> string list \<Rightarrow> error + nat list" where
  \<comment> \<open>\<^verbatim>\<open>[i for i, s in enumerate(sv) if s[0] in sk]\<close>; \<^verbatim>\<open>s[0]\<close> of an empty string raises\<close>
  "sat_rows sk sv =
     (if [] \<in> set sv then Inl IndexError
      else Inr (map fst (filter (\<lambda>(i, s). contains (take 1 s) sk) (enumerate 0 sv))))"

definition list_union :: "'a list \<Rightarrow> 'a list \<Rightarrow> 'a list" where
  "list_union xs ys = xs @ filter (\<lambda>y. y \<notin> set xs) ys"

definition assemble :: "nat \<Rightarrow> dataset \<Rightarrow> dataset \<Rightarrow> dataset" where
  \<comment> \<open>the three-way choice at the end of the loop body: replace, \<^verbatim>\<open>concat\<close>, \<^verbatim>\<open>merge\<close>\<close>
  "assemble nsys data e =
     (if length (ds_vars data) = 0 then e
      else if nsys = 1 then
        \<lparr>ds_vars = ds_vars data, ds_time = ds_time data @ ds_time e,
         ds_sv = list_union (ds_sv data) (ds_sv e)\<rparr>
      else
        \<lparr>ds_vars = list_union (ds_vars data) (ds_vars e),
         ds_time = list_union (ds_time data) (ds_time e),
         ds_sv = list_union (ds_sv data) (ds_sv e)\<rparr>)"

fun epoch_loop ::
  "header \<Rightarrow> int \<Rightarrow> string list \<Rightarrow> bool \<Rightarrow> (string \<times> string list) list \<Rightarrow> dataset \<Rightarrow> error + dataset" where
  "epoch_loop h t sv ui [] data = Inr data"
| "epoch_loop h t sv ui ((sk, codes) # rest) data =
     (case sat_rows sk sv of
        Inl e \<Rightarrow> Inl e
      | Inr si \<Rightarrow>
          if length si = 0 then epoch_loop h t sv ui rest data
          else
            (case map_of (fields_ind h) sk of
               None \<Rightarrow> Inl KeyError
             | Some di \<Rightarrow>
                 epoch_loop h t sv ui rest
                   (assemble (length (hfields h)) data
                      \<lparr>ds_vars = keys (epoch_dsf codes ui), ds_time = [t],
                       ds_sv = map (\<lambda>i. np_str (sv ! i)) si\<rparr>)))"

definition epoch :: "dataset \<Rightarrow> string \<Rightarrow> header \<Rightarrow> int \<Rightarrow> string list \<Rightarrow> bool \<Rightarrow> error + dataset" where
  "epoch data raw h t sv ui = epoch_loop h t sv ui (hfields h) data"

section \<open>The epoch scanner \<^verbatim>\<open>rinexobs3\<close>\<close>

record options =
  tlim :: "(int \<times> int) option"
  interval :: "int option"
  useindicators :: bool

record 'f scan_state =
  last_epoch :: "int option"
  time_offset :: "'f list"
  data :: dataset

fun read_sats :: "nat \<Rightarrow> string list \<Rightarrow> string list \<Rightarrow> string \<Rightarrow> string list \<times> string \<times> string list" where
  \<comment> \<open>the inner \<^verbatim>\<open>for _ in range(...)\<close> loop: one \<^verbatim>\<open>readline\<close> per declared satellite\<close>
  "read_sats 0 f sv raw = (sv, raw, f)"
| "read_sats (Suc n) f sv raw =
     (case readline f of (ln, f') \<Rightarrow> read_sats n f' (sv @ [take 3 ln]) (raw @ drop 3 ln))"

datatype verdict = Skip | Stop | Pass

definition tlim_check :: "(int \<times> int) option \<Rightarrow> int \<Rightarrow> verdict" where
  "tlim_check w t =
     (case w of
        None \<Rightarrow> Pass
      | Some (lo, hi) \<Rightarrow> if t < lo then Skip else if hi < t then Stop else Pass)"

definition decimate :: "int option \<Rightarrow> int option \<Rightarrow> int \<Rightarrow> error + (bool \<times> int option)" where
  \<comment> \<open>the \<^verbatim>\<open>interval\<close> block: whether the epoch is kept, and the new \<^verbatim>\<open>last_epoch\<close>\<close>
  "decimate iv le t =
     (case iv of
        None \<Rightarrow> Inr (True, le)
      | Some I \<Rightarrow>
          (case le of
             None \<Rightarrow> Inr (True, Some t)
           | Some r \<Rightarrow>
               if t - r < I then Inr (False, Some r)
               else (case dt_add r I of Inl e \<Rightarrow> Inl e | Inr r' \<Rightarrow> Inr (True, Some r'))))"

definition note_offset :: "'f floatlib \<Rightarrow> string \<Rightarrow> 'f scan_state \<Rightarrow> 'f scan_state" where
  \<comment> \<open>\<^verbatim>\<open>time_offset.append(float(ln[41:56]))\<close>, skipped on \<^verbatim>\<open>ValueError\<close>\<close>
  "note_offset F ln st =
     (case float_of F (py_slice ln 41 56) of
        None \<Rightarrow> st
      | Some x \<Rightarrow> st\<lparr>time_offset := time_offset st @ [x]\<rparr>)"

function scan ::
  "'f floatlib \<Rightarrow> options \<Rightarrow> header \<Rightarrow> 'f scan_state \<Rightarrow> string list \<Rightarrow> error + 'f scan_state" where
  "scan F C h st [] = Inr st"
| "scan F C h st (ln # f) =
     (if \<not> startswith ln ''>'' then Inr st
      else
        (case timeobs F ln of
           Inl e \<Rightarrow> if e = ValueError then scan F C h st f else Inl e
         | Inr t \<Rightarrow>
             (case py_int (py_slice ln 33 35) of
                None \<Rightarrow> Inl ValueError
              | Some n \<Rightarrow>
                  (case read_sats (nat n) f [] [] of
                     (sv, raw, f') \<Rightarrow>
                       (case tlim_check (tlim C) t of
                          Skip \<Rightarrow> scan F C h (note_offset F ln st) f'
                        | Stop \<Rightarrow> Inr (note_offset F ln st)
                        | Pass \<Rightarrow>
                            (case decimate (interval C) (last_epoch st) t of
                               Inl e \<Rightarrow> Inl e
                             | Inr (keep, le) \<Rightarrow>
                                 if \<not> keep then scan F C h ((note_offset F ln st)\<lparr>last_epoch := le\<rparr>) f'
                                 else
                                   (case epoch (data st) raw h t sv (useindicators C) of
                                      Inl e \<Rightarrow> Inl e
                                    | Inr d \<Rightarrow> scan F C h ((note_offset F ln st)\<lparr>last_epoch := le, data := d\<rparr>) f')))))))"
  by pat_completeness auto
termination
proof -
  have sats: "read_sats n f sv raw = (sv', raw', f') \<Longrightarrow> length f' \<le> length f"
    for n f sv raw sv' raw' f'
  proof (induction n arbitrary: f sv raw)
    case 0
    then show ?case by simp
  next
    case (Suc n)
    obtain ln g where rl: "readline f = (ln, g)" by (cases "readline f")
    have g: "length g \<le> length f" using rl by (cases f) auto
    from Suc.prems rl have "read_sats n g (sv @ [take 3 ln]) (raw @ drop 3 ln) = (sv', raw', f')"
      by simp
    from Suc.IH[OF this] g show ?case by simp
  qed
  show ?thesis
    by (relation "measure (\<lambda>(F, C, h, st, f). length f)") (auto dest!: sats [OF sym])
qed

declare scan.simps [simp del]

text \<open>
  \<open>rinexobs3 F U info f use tlim useindicators meas interval\<close>: \<open>f\<close> is the opened stream
  after \<^verbatim>\<open>rinexinfo\<close>, \<open>interval\<close> what \<^verbatim>\<open>check_time_interval\<close> returned, and \<open>tlim\<close> a pair
  of \<^verbatim>\<open>datetime\<close> values (the \<^verbatim>\<open>TypeError\<close> for any other type cannot arise). \<^verbatim>\<open>use\<close> and
  \<^verbatim>\<open>meas\<close> may be \<^verbatim>\<open>None\<close>, one string, or a container of strings. The result is the
  dataset after the satellite names are patched; its attributes, and what the statements
  that set them may raise, are not modelled.
\<close>

datatype use_arg = UseNone | UseStr string | UseSeq "string list"

datatype meas_arg = MeasNone | MeasStr string | MeasList "string list"

definition norm_use :: "use_arg \<Rightarrow> string list option" where
  "norm_use u = (case u of UseNone \<Rightarrow> None | UseStr s \<Rightarrow> Some [s] | UseSeq xs \<Rightarrow> Some xs)"

definition norm_meas :: "meas_arg \<Rightarrow> string list option" where
  "norm_meas m =
     (case (case m of MeasNone \<Rightarrow> None | MeasStr s \<Rightarrow> Some [s] | MeasList xs \<Rightarrow> Some xs) of
        None \<Rightarrow> None
      | Some [] \<Rightarrow> None
      | Some (x # xs) \<Rightarrow> if strip x = [] then None else Some (x # xs))"

definition patch_sv :: "dataset \<Rightarrow> dataset" where
  "patch_sv d = d\<lparr>ds_sv := map (replace_char CHR '' '' CHR ''0'') (ds_sv d)\<rparr>"

definition empty_dataset :: dataset where
  "empty_dataset = \<lparr>ds_vars = [], ds_time = [], ds_sv = []\<rparr>"

definition init_state :: "'f scan_state" where
  "init_state = \<lparr>last_epoch = None, time_offset = [], data = empty_dataset\<rparr>"

definition rinexobs3 ::
  "'f floatlib \<Rightarrow> (string \<Rightarrow> nat \<Rightarrow> bool) \<Rightarrow> (string \<times> hval) list \<Rightarrow> string list \<Rightarrow>
   use_arg \<Rightarrow> (int \<times> int) option \<Rightarrow> bool \<Rightarrow> meas_arg \<Rightarrow> int option \<Rightarrow> error + dataset" where
  "rinexobs3 F U info f use w ui meas iv =
     (case obsheader3 F U info f (norm_use use) (norm_meas meas) of
        Inl e \<Rightarrow> Inl e
      | Inr (h, f') \<Rightarrow>
          (case scan F \<lparr>tlim = w, interval = iv, useindicators = ui\<rparr> h init_state f' of
             Inl e \<Rightarrow> Inl e
           | Inr st \<Rightarrow> Inr (patch_sv (data st))))"

section \<open>A float library and a file for the examples\<close>

text \<open>
  \<open>decimal_floats\<close> reads unsigned decimal strings such as \<^verbatim>\<open>25.0000000\<close>, held in whole
  microseconds, and the string \<^verbatim>\<open>inf\<close>; it has no coordinate converter. It stands in for
  Python's \<^verbatim>\<open>float\<close> only to evaluate examples; the theorems below hold for every float
  library.
\<close>

datatype sample_float = Micro int | Inf

definition decimal_float :: "string \<Rightarrow> sample_float option" where
  "decimal_float s =
     (let t = strip s; ip = takeWhile isdigit t; r = dropWhile isdigit t in
      if t = ''inf'' then Some Inf
      else
        (case py_nat ip of
           None \<Rightarrow> None
         | Some n \<Rightarrow>
             (case r of
                [] \<Rightarrow> Some (Micro (int n * 1000000))
              | c # fr \<Rightarrow>
                  if c = CHR ''.'' \<and> list_all isdigit fr
                  then map_option (\<lambda>u. Micro (int n * 1000000 + int u))
                         (py_nat (take 6 (fr @ ''000000'')))
                  else None)))"

definition sample_usec :: "sample_float \<Rightarrow> int option" where
  "sample_usec x = (case x of Micro n \<Rightarrow> Some (n mod 1000000) | Inf \<Rightarrow> None)"

definition sample_int :: "sample_float \<Rightarrow> fint" where
  "sample_int x = (case x of Micro n \<Rightarrow> Whole (n div 1000000) | Inf \<Rightarrow> Infinite)"

definition no_converter :: "sample_float list \<Rightarrow> error option" where
  "no_converter pos = None"

definition decimal_floats :: "sample_float floatlib" where
  "decimal_floats = \<lparr>float_of = decimal_float, usec_of = sample_usec, int_of = sample_int,
                      geodetic = no_converter\<rparr>"

text \<open>The two extreme contents of uninitialised memory.\<close>

definition zero_memory :: "string \<Rightarrow> nat \<Rightarrow> bool" where
  "zero_memory sk i = False"

definition dirty_memory :: "string \<Rightarrow> nat \<Rightarrow> bool" where
  "dirty_memory sk i = True"

text \<open>
  A small file: GPS declares two codes and GLONASS one; epochs at 0 s, 25 s and 26 s of
  2020-01-01 00:00, each with one GPS satellite written with a blank in its identifier.
\<close>

definition line_sys_G :: string where
  "line_sys_G = ''G    2 C1C L1C                                              SYS / # / OBS TYPES \<newline>''"

definition line_sys_R :: string where
  "line_sys_R = ''R    1 C1C                                                  SYS / # / OBS TYPES \<newline>''"

definition line_end :: string where
  "line_end = ''                                                            END OF HEADER       \<newline>''"

definition line_epoch_00 :: string where
  "line_epoch_00 = ''> 2020 01 01 00 00  0.0000000  0  1\<newline>''"

definition line_epoch_25 :: string where
  "line_epoch_25 = ''> 2020 01 01 00 00 25.0000000  0  1\<newline>''"

definition line_epoch_26 :: string where
  "line_epoch_26 = ''> 2020 01 01 00 00 26.0000000  0  1\<newline>''"

definition line_epoch_bad_count :: string where
  "line_epoch_bad_count = ''> 2020 01 01 00 00 27.0000000  0  x\<newline>''"

definition line_sat_G07 :: string where
  "line_sat_G07 = ''G 7  20000000.000 7 100000000.000 7\<newline>''"



definition line_first_obs :: string where
  "line_first_obs = ''  2020     1     1     0     0    0.0000000                 TIME OF FIRST OBS   \<newline>''"

definition line_first_obs_inf :: string where
  "line_first_obs_inf = ''  2020     1     1     0     0   inf                        TIME OF FIRST OBS   \<newline>''"

definition line_epoch_05 :: string where
  "line_epoch_05 = ''> 2020 01 01 00 00  5.0000000  0  1\<newline>''"

definition demo_header :: "string list" where
  "demo_header = [line_sys_G, line_sys_R, line_end]"

definition first_obs_header :: "string list" where
  "first_obs_header = [line_sys_G, line_sys_R, line_first_obs, line_end]"

definition first_obs_hdr :: header where
  \<comment> \<open>what the header loop returns for \<open>first_obs_header\<close>\<close>
  "first_obs_hdr = \<lparr>labels = [(''TIME OF FIRST OBS'', Str (take 60 line_first_obs))],
                    hfields = [(''G'', [''C1C'', ''L1C'']), (''R'', [''C1C''])],
                    fields_ind = [], Fmax = 2\<rparr>"

definition inf_header :: "string list" where
  "inf_header = [line_sys_G, line_first_obs_inf, line_end]"

definition inf_hdr :: header where
  \<comment> \<open>what the header loop returns for \<open>inf_header\<close>\<close>
  "inf_hdr = \<lparr>labels = [(''TIME OF FIRST OBS'', Str (take 60 line_first_obs_inf))],
              hfields = [(''G'', [''C1C'', ''L1C''])], fields_ind = [], Fmax = 2\<rparr>"

definition demo_body :: "string list" where
  "demo_body = [line_epoch_00, line_sat_G07, line_epoch_25, line_sat_G07,
                line_epoch_26, line_sat_G07]"

definition demo_file :: "string list" where
  "demo_file = demo_header @ demo_body"

definition demo_hdr :: header where
  \<comment> \<open>what \<open>obsheader3\<close> returns for \<open>demo_header\<close> without filters\<close>
  "demo_hdr = \<lparr>labels = [], hfields = [(''G'', [''C1C'', ''L1C'']), (''R'', [''C1C''])],
               fields_ind = [(''G'', SelectAll), (''R'', SelectAll)], Fmax = 2\<rparr>"

definition no_filter :: options where
  "no_filter = \<lparr>tlim = None, interval = None, useindicators = False\<rparr>"

definition line_garbage :: string where
  "line_garbage = ''>garbage\<newline>''"

section \<open>Satellite identifiers\<close>

definition isupper :: "char \<Rightarrow> bool" where
  "isupper c = (c \<in> set ''ABCDEFGHIJKLMNOPQRSTUVWXYZ'')"

definition sat_id_written :: "string \<Rightarrow> bool" where
  \<comment> \<open>an identifier as a valid file writes it: a letter and two positions, each a digit or blank\<close>
  "sat_id_written s =
     (case s of
        [a, b, c] \<Rightarrow> isupper a \<and> (isdigit b \<or> b = CHR '' '') \<and> (isdigit c \<or> c = CHR '' '')
      | _ \<Rightarrow> False)"

definition sat_id_padded :: "string \<Rightarrow> bool" where
  \<comment> \<open>one uppercase letter followed by exactly two digits\<close>
  "sat_id_padded s = (case s of [a, b, c] \<Rightarrow> isupper a \<and> isdigit b \<and> isdigit c | _ \<Rightarrow> False)"

section \<open>Facts about the Python primitives\<close>

lemma strip_empty_iff: "strip s = [] \<longleftrightarrow> list_all isspace s"
proof
  assume "strip s = []"
  then have "dropWhile isspace (rev (dropWhile isspace s)) = []" by (simp add: strip_def)
  then have a: "\<forall>c \<in> set (dropWhile isspace s). isspace c"
    by simp
  have "dropWhile isspace s = []"
  proof (cases "dropWhile isspace s")
    case Nil then show ?thesis .
  next
    case (Cons c cs)
    then have "\<not> isspace c" by (metis hd_dropWhile list.sel(1) list.distinct(1))
    with a Cons show ?thesis by simp
  qed
  then show "list_all isspace s" by (simp add: list_all_iff)
next
  assume "list_all isspace s"
  then show "strip s = []"
    by (auto simp: strip_def list_all_iff dest: set_dropWhileD)
qed

lemma map_of_dict_set: "map_of (dict_set d k v) = (map_of d)(k \<mapsto> v)"
  by (induction d) (auto simp: fun_eq_iff)

lemma keys_dict_set: "set (keys (dict_set d k v)) = insert k (set (keys d))"
  by (induction d k v rule: dict_set.induct) (auto simp: keys_def)

lemma timeobs_error: "timeobs F ln = Inl e \<Longrightarrow> e = ValueError"
  by (auto simp: timeobs_def datetime_def split: if_splits option.splits bind_splits)

lemma norm_meas_None_iff:
  "norm_meas m = None \<longleftrightarrow>
     (m = MeasNone \<or> m = MeasList [] \<or> (\<exists>x xs. m = MeasList (x # xs) \<and> list_all isspace x)
      \<or> (\<exists>s. m = MeasStr s \<and> list_all isspace s))"
  by (cases m) (auto simp: norm_meas_def strip_empty_iff split: list.splits)

section \<open>The measurement argument of \<^verbatim>\<open>rinexobs3\<close>\<close>

text \<open>
  C10. The measurement filter is dropped exactly when \<^verbatim>\<open>meas\<close> is \<^verbatim>\<open>None\<close>, empty, or
  has a first element (the string itself, when one string is passed) made of blanks only;
  the elements after the first are not looked at. In that case \<^verbatim>\<open>rinexobs3\<close> returns what
  it returns for \<^verbatim>\<open>meas=None\<close>, and every system's column selection in the header is
  ``select everything''.
\<close>

theorem meas_filter_disabled:
  "(norm_meas m = None \<longleftrightarrow>
      (m = MeasNone \<or> m = MeasList [] \<or> (\<exists>x xs. m = MeasList (x # xs) \<and> list_all isspace x)
       \<or> (\<exists>s. m = MeasStr s \<and> list_all isspace s)))
   \<and> (norm_meas m = None \<longrightarrow>
        rinexobs3 F U info f use w ui m iv = rinexobs3 F U info f use w ui MeasNone iv)
   \<and> (norm_meas m = None \<longrightarrow> obsheader3 F U info f u (norm_meas m) = Inr (h, f') \<longrightarrow>
        (\<forall>sel \<in> snd ` set (fields_ind h). sel = SelectAll))"
proof (intro conjI impI)
  show "norm_meas m = None \<longleftrightarrow>
      (m = MeasNone \<or> m = MeasList [] \<or> (\<exists>x xs. m = MeasList (x # xs) \<and> list_all isspace x)
       \<or> (\<exists>s. m = MeasStr s \<and> list_all isspace s))"
    by (rule norm_meas_None_iff)
next
  assume "norm_meas m = None"
  moreover have "norm_meas MeasNone = None" by (simp add: norm_meas_def)
  ultimately show "rinexobs3 F U info f use w ui m iv = rinexobs3 F U info f use w ui MeasNone iv"
    by (simp add: rinexobs3_def)
next
  assume n: "norm_meas m = None" and o: "obsheader3 F U info f u (norm_meas m) = Inr (h, f')"
  from o n obtain h0 where h: "h = select_meas U None h0"
    by (auto simp: obsheader3_def split: sum.splits prod.splits option.splits)
  show "\<forall>sel \<in> snd ` set (fields_ind h). sel = SelectAll"
    unfolding h select_meas_def by auto
qed

text \<open>
  A list whose first element is one blank and whose second is the prefix \<^verbatim>\<open>C1\<close>: both
  codes of the file are read, as without a filter. A string of a no-break space and a
  next-line character is blank, too.
\<close>

theorem meas_filter_disabled_witness:
  "rinexobs3 decimal_floats zero_memory [] demo_file UseNone None False
     (MeasList ['' '', ''C1'']) None
   = Inr \<lparr>ds_vars = [''C1C'', ''L1C''],
          ds_time = [63713433600000000, 63713433625000000, 63713433626000000],
          ds_sv = [''G07'']\<rparr>
   \<and> norm_meas (MeasStr [CHR 0xA0, CHR 0x85]) = None"
proof -
  have e: "norm_meas (MeasStr [CHR 0xA0, CHR 0x85]) = None" by code_simp
  have a: "norm_meas (MeasList ['' '', ''C1'']) = None" by code_simp
  have b: "rinexobs3 decimal_floats zero_memory [] demo_file UseNone None False MeasNone None
   = Inr \<lparr>ds_vars = [''C1C'', ''L1C''],
          ds_time = [63713433600000000, 63713433625000000, 63713433626000000],
          ds_sv = [''G07'']\<rparr>" by code_simp
  have c: "rinexobs3 decimal_floats zero_memory [] demo_file UseNone None False
             (MeasList ['' '', ''C1'']) None
     = rinexobs3 decimal_floats zero_memory [] demo_file UseNone None False MeasNone None"
    using meas_filter_disabled [of "MeasList ['' '', ''C1'']" decimal_floats zero_memory "[]"
        demo_file UseNone None False None] a
    by blast
  from b e show ?thesis by (simp only: c simp_thms)
qed

section \<open>The tables of \<^verbatim>\<open>_indicators\<close> and \<^verbatim>\<open>_epoch\<close>\<close>

lemma keys_indicators:
  "set (keys (indicators d k arr)) =
     set (keys d) \<union> {k @ ''ssi''}
       \<union> (if startswith k ''L1'' \<or> startswith k ''L2'' then {k @ ''lli''} else {})"
  by (auto simp: indicators_def keys_dict_set Let_def)

lemma dsf_step_pair:
  "dsf_step ui (i, k) dsf =
     (if ui then indicators (dict_set dsf k (i * 3)) k (i * 3 + 1, i * 3 + 2)
      else dict_set dsf k (i * 3))"
  by (simp add: dsf_step_def)

lemma keys_epoch_fold:
  "set (keys (fold (dsf_step ui) (enumerate n codes) acc)) =
   set (keys acc) \<union> set codes
     \<union> (if ui then (\<lambda>k. k @ ''ssi'') ` set codes
                   \<union> (\<lambda>k. k @ ''lli'') ` {k \<in> set codes. startswith k ''L1'' \<or> startswith k ''L2''}
         else {})"
proof (induction codes arbitrary: n acc)
  case Nil
  then show ?case by simp
next
  case (Cons c cs)
  have "set (keys (fold (dsf_step ui) (enumerate n (c # cs)) acc))
      = set (keys (fold (dsf_step ui) (enumerate (Suc n) cs) (dsf_step ui (n, c) acc)))"
    by simp
  also have "\<dots> = set (keys (dsf_step ui (n, c) acc)) \<union> set cs
     \<union> (if ui then (\<lambda>k. k @ ''ssi'') ` set cs
                   \<union> (\<lambda>k. k @ ''lli'') ` {k \<in> set cs. startswith k ''L1'' \<or> startswith k ''L2''}
         else {})"
    by (rule Cons.IH)
  also have "\<dots> = set (keys acc) \<union> set (c # cs)
     \<union> (if ui then (\<lambda>k. k @ ''ssi'') ` set (c # cs)
                   \<union> (\<lambda>k. k @ ''lli'') ` {k \<in> set (c # cs). startswith k ''L1'' \<or> startswith k ''L2''}
         else {})"
    by (auto simp: dsf_step_pair keys_indicators keys_dict_set)
  finally show ?case .
qed

lemma keys_epoch_dsf:
  "set (keys (epoch_dsf codes ui)) =
   set codes
     \<union> (if ui then (\<lambda>k. k @ ''ssi'') ` set codes
                   \<union> (\<lambda>k. k @ ''lli'') ` {k \<in> set codes. startswith k ''L1'' \<or> startswith k ''L2''}
         else {})"
  unfolding epoch_dsf_def keys_epoch_fold by (simp add: keys_def)

section \<open>Lines that fail timestamp extraction\<close>

text \<open>
  C3. A line of the data section on which the scanner attempts timestamp extraction (it
  begins with \<^verbatim>\<open>>\<close>) and on which \<^verbatim>\<open>_timeobs\<close> fails is skipped: the scan of the file from
  that line is the scan from the next line, in the same state. (A line that does not
  begin with \<^verbatim>\<open>>\<close> ends the scan before extraction is attempted.)
\<close>

theorem garbage_epoch_line_skipped:
  "startswith ln ''>'' \<Longrightarrow> timeobs F ln = Inl e \<Longrightarrow> scan F C h st (ln # f) = scan F C h st f"
  by (frule timeobs_error) (simp add: scan.simps)

text \<open>A line \<^verbatim>\<open>>garbage\<close> before the first epoch: the epoch after it is read.\<close>

theorem garbage_epoch_line_skipped_witness:
  "startswith line_garbage ''>''
   \<and> timeobs decimal_floats line_garbage = Inl ValueError
   \<and> scan decimal_floats no_filter demo_hdr init_state [line_garbage, line_epoch_00, line_sat_G07]
       = Inr \<lparr>last_epoch = None, time_offset = [],
              data = \<lparr>ds_vars = [''C1C'', ''L1C''], ds_time = [63713433600000000],
                      ds_sv = [''G 7'']\<rparr>\<rparr>"
proof -
  have a: "startswith line_garbage ''>''" by code_simp
  have b: "timeobs decimal_floats line_garbage = Inl ValueError" by code_simp
  have c: "scan decimal_floats no_filter demo_hdr init_state [line_epoch_00, line_sat_G07]
       = Inr \<lparr>last_epoch = None, time_offset = [],
              data = \<lparr>ds_vars = [''C1C'', ''L1C''], ds_time = [63713433600000000],
                      ds_sv = [''G 7'']\<rparr>\<rparr>"
    by code_simp
  from garbage_epoch_line_skipped [OF a b, of no_filter demo_hdr init_state
      "[line_epoch_00, line_sat_G07]"] a b c
  show ?thesis by simp
qed

section \<open>Observation-type records\<close>






section \<open>System filter\<close>

lemma keys_dict_set_list:
  "keys (dict_set d k v) = (if k \<in> set (keys d) then keys d else keys d @ [k])"
  by (induction d k v rule: dict_set.induct) (auto simp: keys_def)

lemma remdups_snoc: "remdups (zs @ [x]) = remdups (filter (\<lambda>y. y \<noteq> x) zs) @ [x]"
  by (induction zs) auto

lemma firsts_Cons:
  "rev (remdups (rev (x # ys))) = x # rev (remdups (rev (filter (\<lambda>y. y \<noteq> x) ys)))"
  by (simp add: remdups_snoc rev_filter)

lemma in_keys_map_of: "k \<in> set (keys d) \<longleftrightarrow> map_of d k \<noteq> None"
  by (simp add: keys_def map_of_eq_None_iff)

lemma foldl_select_keys:
  "keys (foldl (\<lambda>d k. case map_of flds k of None \<Rightarrow> d | Some v \<Rightarrow> dict_set d k v) d u)
     = keys d @ rev (remdups (rev (filter (\<lambda>k. k \<in> set (keys flds) \<and> k \<notin> set (keys d)) u)))"
proof (induction u arbitrary: d)
  case Nil
  then show ?case by simp
next
  case (Cons x xs)
  show ?case
  proof (cases "map_of flds x")
    case None
    then have "x \<notin> set (keys flds)" by (simp add: in_keys_map_of)
    with None show ?thesis by (simp add: Cons.IH)
  next
    case (Some v)
    then have x: "x \<in> set (keys flds)" by (simp add: in_keys_map_of)
    show ?thesis
    proof (cases "x \<in> set (keys d)")
      case True
      with Some x show ?thesis by (simp add: Cons.IH keys_dict_set_list)
    next
      case False
      have "filter (\<lambda>y. y \<noteq> x) (filter (\<lambda>k. k \<in> set (keys flds) \<and> k \<notin> set (keys d)) xs)
          = filter (\<lambda>k. k \<in> set (keys flds) \<and> k \<notin> set (keys d @ [x])) xs"
        by (auto intro: filter_cong)
      with False Some x show ?thesis
        by (simp add: Cons.IH keys_dict_set_list firsts_Cons del: remdups.simps rev.simps)
    qed
  qed
qed

lemma foldl_select_map_of:
  "map_of (foldl (\<lambda>d k. case map_of flds k of None \<Rightarrow> d | Some v \<Rightarrow> dict_set d k v) d u) k
     = (if k \<in> set u \<and> k \<in> set (keys flds) then map_of flds k else map_of d k)"
proof (induction u arbitrary: d)
  case Nil
  then show ?case by simp
next
  case (Cons x xs)
  show ?case
    by (cases "map_of flds x") (auto simp: Cons.IH map_of_dict_set in_keys_map_of)
qed



lemma keys_Nil: "keys [] = []"
  by (simp add: keys_def)

lemma firsts_distinct: "distinct xs \<Longrightarrow> rev (remdups (rev xs)) = xs"
  by (simp add: distinct_remdups_id)

lemma select_systems_cases:
  "select_systems use flds =
     (case use of
        None \<Rightarrow> Inr flds
      | Some u \<Rightarrow>
          if u = [] then Inr flds
          else if set u \<inter> set (keys flds) = {} then Inl KeyError
          else Inr (foldl (\<lambda>d k. case map_of flds k of None \<Rightarrow> d | Some v \<Rightarrow> dict_set d k v) [] u))"
  by (auto simp: select_systems_def split: option.splits)

lemma keys_select_meas:
  "keys (hfields (select_meas U meas h)) = keys (hfields h)"
  "keys (fields_ind (select_meas U meas h)) = keys (hfields h)"
  by (auto simp: select_meas_def keys_def split: option.splits)

lemma demo_header_loop:
  "hdr_loop \<lparr>labels = [], hfields = [], fields_ind = [], Fmax = 0\<rparr> demo_header
     = Inr (demo_hdr\<lparr>fields_ind := []\<rparr>, [])"
  by code_simp

lemma demo_header_blocks: "best_effort decimal_floats (labels (demo_hdr\<lparr>fields_ind := []\<rparr>)) = None"
  by code_simp

lemma first_obs_header_loop:
  "hdr_loop \<lparr>labels = [], hfields = [], fields_ind = [], Fmax = 0\<rparr> first_obs_header
     = Inr (first_obs_hdr, [])"
  by code_simp

lemma first_obs_header_blocks: "best_effort decimal_floats (labels first_obs_hdr) = None"
  by code_simp

lemma inf_header_loop:
  "hdr_loop \<lparr>labels = [], hfields = [], fields_ind = [], Fmax = 0\<rparr> inf_header
     = Inr (inf_hdr, [])"
  by code_simp

lemma inf_header_blocks: "best_effort decimal_floats (labels inf_hdr) = Some OverflowError"
  by code_simp

lemma best_effort_escapes: "best_effort F hdr = Some e \<Longrightarrow> \<not> caught e"
  by (auto simp: best_effort_def position_block_def first_obs_block_def interval_block_def
        caught_def split: option.splits hval.splits sum.splits if_splits)

lemma best_effort_absent:
  "map_of hdr ''APPROX POSITION XYZ'' = None \<Longrightarrow> map_of hdr ''TIME OF FIRST OBS'' = None \<Longrightarrow>
   map_of hdr ''INTERVAL'' = None \<Longrightarrow> best_effort F hdr = None"
  by (simp add: best_effort_def position_block_def first_obs_block_def interval_block_def)

lemma obsheader3_after_loop:
  "hdr_loop \<lparr>labels = info, hfields = [], fields_ind = [], Fmax = 0\<rparr> f = Inr (h, f') \<Longrightarrow>
   obsheader3 F U info f use meas =
     (case best_effort F (labels h) of
        Some e \<Rightarrow> Inl e
      | None \<Rightarrow>
          (case select_systems use (hfields h) of
             Inl e \<Rightarrow> Inl e
           | Inr flds \<Rightarrow> Inr (select_meas U meas (h\<lparr>hfields := flds\<rparr>), f')))"
  by (simp add: obsheader3_def)

text \<open>
  C7, as the code has it. Once the header lines are parsed, an exception that escapes one
  of the optional blocks (position, time of first observation, interval) is the outcome,
  whatever the system argument. When none escapes: a system argument of \<^verbatim>\<open>None\<close> or an empty
  container applies no filter and raises nothing; a non-empty container that shares no
  system with the file raises \<^verbatim>\<open>KeyError\<close>, and this is the only way to a \<^verbatim>\<open>KeyError\<close>; one
  that shares a system succeeds, and the code-list mapping is then restricted to the
  requested systems present in the file, each with the code list the file declares.
\<close>

theorem system_filter:
  assumes "hdr_loop \<lparr>labels = info, hfields = [], fields_ind = [], Fmax = 0\<rparr> f = Inr (h, f')"
  shows "(best_effort F (labels h) = Some e \<longrightarrow> obsheader3 F U info f use meas = Inl e)
       \<and> (best_effort F (labels h) = None \<and> (use = None \<or> use = Some []) \<longrightarrow>
            obsheader3 F U info f use meas = Inr (select_meas U meas h, f'))
       \<and> (best_effort F (labels h) = None \<and> use = Some u \<and> u \<noteq> []
            \<and> set u \<inter> set (keys (hfields h)) = {} \<longrightarrow>
            obsheader3 F U info f use meas = Inl KeyError)
       \<and> (obsheader3 F U info f use meas = Inl KeyError \<longrightarrow>
            best_effort F (labels h) = None
            \<and> (\<exists>v. use = Some v \<and> v \<noteq> [] \<and> set v \<inter> set (keys (hfields h)) = {}))
       \<and> (best_effort F (labels h) = None \<and> use = Some u
            \<and> set u \<inter> set (keys (hfields h)) \<noteq> {} \<longrightarrow>
            (\<exists>flds. obsheader3 F U info f use meas = Inr (select_meas U meas (h\<lparr>hfields := flds\<rparr>), f')
               \<and> set (keys flds) = set u \<inter> set (keys (hfields h))
               \<and> distinct (keys flds)
               \<and> (\<forall>k \<in> set (keys flds). map_of flds k = map_of (hfields h) k)))"
proof (intro conjI impI)
  note o = obsheader3_after_loop [OF assms]
  show "obsheader3 F U info f use meas = Inl e" if "best_effort F (labels h) = Some e"
    using that by (simp add: o)
  show "obsheader3 F U info f use meas = Inr (select_meas U meas h, f')"
    if "best_effort F (labels h) = None \<and> (use = None \<or> use = Some [])"
    using that by (auto simp: o select_systems_cases)
  show "obsheader3 F U info f use meas = Inl KeyError"
    if "best_effort F (labels h) = None \<and> use = Some u \<and> u \<noteq> []
            \<and> set u \<inter> set (keys (hfields h)) = {}"
    using that by (simp add: o select_systems_cases)
  show "best_effort F (labels h) = None" if k: "obsheader3 F U info f use meas = Inl KeyError"
  proof (cases "best_effort F (labels h)")
    case (Some e)
    with k have "e = KeyError" by (simp add: o)
    with best_effort_escapes [OF Some] show ?thesis by (simp add: caught_def)
  qed simp
  show "\<exists>v. use = Some v \<and> v \<noteq> [] \<and> set v \<inter> set (keys (hfields h)) = {}"
    if k: "obsheader3 F U info f use meas = Inl KeyError"
  proof (cases "best_effort F (labels h)")
    case (Some e)
    with k have "e = KeyError" by (simp add: o)
    with best_effort_escapes [OF Some] show ?thesis by (simp add: caught_def)
  next
    case None
    with k show ?thesis
      by (auto simp: o select_systems_cases split: option.splits if_splits)
  qed
next
  assume a: "best_effort F (labels h) = None \<and> use = Some u
            \<and> set u \<inter> set (keys (hfields h)) \<noteq> {}"
  note o = obsheader3_after_loop [OF assms]
  let ?flds = "foldl (\<lambda>d k. case map_of (hfields h) k of None \<Rightarrow> d | Some v \<Rightarrow> dict_set d k v) [] u"
  from a have u: "u \<noteq> []" by auto
  with a have "obsheader3 F U info f use meas = Inr (select_meas U meas (h\<lparr>hfields := ?flds\<rparr>), f')"
    by (simp add: o select_systems_cases)
  moreover have k: "keys ?flds = rev (remdups (rev (filter (\<lambda>k. k \<in> set (keys (hfields h))) u)))"
    by (simp add: foldl_select_keys keys_Nil)
  then have "set (keys ?flds) = set u \<inter> set (keys (hfields h))" by auto
  moreover from k have "distinct (keys ?flds)" by simp
  moreover have "\<forall>k \<in> set (keys ?flds). map_of ?flds k = map_of (hfields h) k"
    using k by (auto simp: foldl_select_map_of)
  ultimately show "\<exists>flds. obsheader3 F U info f use meas = Inr (select_meas U meas (h\<lparr>hfields := flds\<rparr>), f')
               \<and> set (keys flds) = set u \<inter> set (keys (hfields h))
               \<and> distinct (keys flds)
               \<and> (\<forall>k \<in> set (keys flds). map_of flds k = map_of (hfields h) k)"
    by blast
qed

text \<open>
  With \<^verbatim>\<open>X\<close> alone the call fails; with \<^verbatim>\<open>R\<close> and \<^verbatim>\<open>X\<close> the mapping keeps \<^verbatim>\<open>R\<close>. A header whose
  time of first observation has \<^verbatim>\<open>inf\<close> seconds raises \<^verbatim>\<open>OverflowError\<close>, also when the
  requested system is in the file.
\<close>

theorem system_filter_witness:
  "obsheader3 decimal_floats zero_memory [] demo_header (Some [''X'']) None = Inl KeyError
   \<and> (\<exists>flds. obsheader3 decimal_floats zero_memory [] demo_header (Some [''R'', ''X'']) None
          = Inr (select_meas zero_memory None (demo_hdr\<lparr>fields_ind := [], hfields := flds\<rparr>), [])
        \<and> set (keys flds) = {''R''} \<and> map_of flds ''R'' = Some [''C1C''])
   \<and> obsheader3 decimal_floats zero_memory [] inf_header (Some [''G'']) None = Inl OverflowError"
proof -
  let ?h = "demo_hdr\<lparr>fields_ind := []\<rparr>"
  have k: "keys (hfields ?h) = [''G'', ''R'']" by code_simp
  have m: "map_of (hfields ?h) ''R'' = Some [''C1C'']" by code_simp
  have i1: "best_effort decimal_floats (labels ?h) = None
      \<and> Some [''X''] = Some [''X''] \<and> [''X''] \<noteq> [] \<and> set [''X''] \<inter> set (keys (hfields ?h)) = {}"
    unfolding k demo_header_blocks by simp
  have i2: "set [''R'', ''X''] \<inter> set (keys (hfields ?h)) = {''R''}"
    unfolding k by simp
  then have "set [''R'', ''X''] \<inter> set (keys (hfields ?h)) \<noteq> {}"
    by (simp only: simp_thms insert_not_empty)
  with demo_header_blocks
  have i3: "best_effort decimal_floats (labels ?h) = None
      \<and> Some [''R'', ''X''] = Some [''R'', ''X'']
      \<and> set [''R'', ''X''] \<inter> set (keys (hfields ?h)) \<noteq> {}"
    by (simp only: simp_thms)
  have a: "obsheader3 decimal_floats zero_memory [] demo_header (Some [''X'']) None = Inl KeyError"
    by (rule system_filter [OF demo_header_loop, where F = decimal_floats and U = zero_memory
      and meas = None and use = "Some [''X'']" and u = "[''X'']",
      THEN conjunct2, THEN conjunct2, THEN conjunct1, THEN mp, OF i1])
  from system_filter [OF demo_header_loop, where F = decimal_floats and U = zero_memory
      and meas = None and use = "Some [''R'', ''X'']" and u = "[''R'', ''X'']",
      THEN conjunct2, THEN conjunct2, THEN conjunct2, THEN conjunct2, THEN mp, OF i3]
  obtain flds where f: "obsheader3 decimal_floats zero_memory [] demo_header (Some [''R'', ''X'']) None
          = Inr (select_meas zero_memory None (?h\<lparr>hfields := flds\<rparr>), [])"
     and s: "set (keys flds) = set [''R'', ''X''] \<inter> set (keys (hfields ?h))"
     and v: "\<forall>k \<in> set (keys flds). map_of flds k = map_of (hfields ?h) k"
    by blast
  from s i2 have s': "set (keys flds) = {''R''}" by (simp only:)
  then have "''R'' \<in> set (keys flds)" by (simp only: singletonI)
  with v m have "map_of flds ''R'' = Some [''C1C'']" by (simp only:)
  with f s' have b: "\<exists>flds. obsheader3 decimal_floats zero_memory [] demo_header (Some [''R'', ''X'']) None
          = Inr (select_meas zero_memory None (demo_hdr\<lparr>fields_ind := [], hfields := flds\<rparr>), [])
        \<and> set (keys flds) = {''R''} \<and> map_of flds ''R'' = Some [''C1C'']"
    by blast
  have c: "obsheader3 decimal_floats zero_memory [] inf_header (Some [''G'']) None = Inl OverflowError"
    by (rule system_filter [OF inf_header_loop, where F = decimal_floats and U = zero_memory
      and meas = None and use = "Some [''G'']" and e = OverflowError,
      THEN conjunct1, THEN mp, OF inf_header_blocks])
  from a b c show ?thesis by (intro conjI)
qed

text \<open>
  C7 as stated fails for the empty container: its intersection with the file's systems is
  empty, and the header is returned unfiltered.
\<close>

theorem system_filter_counterexample:
  "set ([] :: string list) \<inter> set (keys (hfields demo_hdr)) = {}
   \<and> obsheader3 decimal_floats zero_memory [] demo_header (Some []) None = Inr (demo_hdr, [])"
  by code_simp

text \<open>
  C8. When the header lines are parsed, no exception escapes the optional blocks and the
  requested systems meet the file's, the call succeeds and the restricted mapping (and the
  mapping of column selections with it) lists its systems in the order in which the
  caller's container yields them, each at its first occurrence, whatever their order in
  the header; for a container without repetitions this is the container's order with the
  absent systems left out.
\<close>

theorem system_order:
  assumes "hdr_loop \<lparr>labels = info, hfields = [], fields_ind = [], Fmax = 0\<rparr> f = Inr (h, f')"
    and "best_effort F (labels h) = None"
    and "set u \<inter> set (keys (hfields h)) \<noteq> {}"
  shows "\<exists>h'. obsheader3 F U info f (Some u) meas = Inr (h', f')
           \<and> keys (hfields h') = rev (remdups (rev (filter (\<lambda>k. k \<in> set (keys (hfields h))) u)))
           \<and> keys (fields_ind h') = keys (hfields h')
           \<and> (distinct u \<longrightarrow> keys (hfields h') = filter (\<lambda>k. k \<in> set (keys (hfields h))) u)"
proof -
  let ?flds = "foldl (\<lambda>d k. case map_of (hfields h) k of None \<Rightarrow> d | Some v \<Rightarrow> dict_set d k v) [] u"
  let ?h = "select_meas U meas (h\<lparr>hfields := ?flds\<rparr>)"
  from assms have u: "u \<noteq> []" by auto
  with assms have "obsheader3 F U info f (Some u) meas = Inr (?h, f')"
    by (simp add: obsheader3_after_loop select_systems_cases)
  moreover have k: "keys (hfields ?h) = rev (remdups (rev (filter (\<lambda>k. k \<in> set (keys (hfields h))) u)))"
    by (simp add: keys_select_meas foldl_select_keys keys_Nil)
  moreover have "keys (fields_ind ?h) = keys (hfields ?h)"
    by (simp add: keys_select_meas)
  moreover have "distinct u \<longrightarrow> keys (hfields ?h) = filter (\<lambda>k. k \<in> set (keys (hfields h))) u"
    unfolding k by (simp add: firsts_distinct)
  ultimately show ?thesis by blast
qed

text \<open>
  The file declares \<^verbatim>\<open>G\<close> before \<^verbatim>\<open>R\<close> and a time of first observation; requested as \<^verbatim>\<open>R\<close>,
  \<^verbatim>\<open>G\<close> the systems come out so.
\<close>

theorem system_order_witness:
  "keys (hfields first_obs_hdr) = [''G'', ''R'']
   \<and> (\<exists>h'. obsheader3 decimal_floats zero_memory [] first_obs_header (Some [''R'', ''G'']) None
            = Inr (h', [])
          \<and> keys (hfields h') = [''R'', ''G''])"
proof -
  have k: "keys (hfields first_obs_hdr) = [''G'', ''R'']" by code_simp
  have i: "set [''R'', ''G''] \<inter> set (keys (hfields first_obs_hdr)) \<noteq> {}"
    unfolding k by simp
  have e: "rev (remdups (rev (filter (\<lambda>k. k \<in> set (keys (hfields first_obs_hdr))) [''R'', ''G''])))
      = [''R'', ''G'']"
    unfolding k by simp
  from system_order [OF first_obs_header_loop first_obs_header_blocks i,
      where U = zero_memory and meas = None]
  obtain h' where "obsheader3 decimal_floats zero_memory [] first_obs_header (Some [''R'', ''G'']) None
        = Inr (h', [])"
    and "keys (hfields h') = rev (remdups (rev (filter (\<lambda>k. k \<in> set (keys (hfields first_obs_hdr))) [''R'', ''G''])))"
    by blast
  with e k show ?thesis by (simp only:) blast
qed

section \<open>Measurement filter\<close>

text \<open>
  What the filter computes: the retained codes are the declared codes that start with one
  of the prefixes, in their order; slot \<open>j\<close> of the mask tells whether code \<open>j div 3\<close> is
  retained as long as \<open>j < 3 * N\<close>, and is the uninitialised memory from there on.
\<close>

lemma mark_step_pair:
  "mark_step m (i, field) ind = (if startswith field m then ind[i := True] else ind)"
  by (simp add: mark_step_def)

lemma mark_length: "length (fold (mark_step m) (enumerate n cs) ind) = length ind"
  by (induction cs arbitrary: n ind) (auto simp: mark_step_pair)

lemma mark_nth:
  "j < length ind \<Longrightarrow>
   fold (mark_step m) (enumerate n cs) ind ! j
     = (ind ! j \<or> (n \<le> j \<and> j < n + length cs \<and> startswith (cs ! (j - n)) m))"
proof (induction cs arbitrary: n ind)
  case Nil
  then show ?case by auto
next
  case (Cons c cs)
  have "j < length (mark_step m (n, c) ind)" using Cons.prems by (simp add: mark_step_pair)
  from Cons.IH [OF this, of "Suc n"] Cons.prems show ?case
    by (cases "j = n") (auto simp: mark_step_pair nth_list_update nth_Cons' Suc_diff_le)
qed

lemma meas_fold_length:
  "length (fold (\<lambda>m. fold (mark_step m) (enumerate 0 codes)) ms ind) = length ind"
  by (induction ms arbitrary: ind) (auto simp: mark_length)

lemma meas_fold_nth:
  "length ind = length codes \<Longrightarrow> j < length codes \<Longrightarrow>
   fold (\<lambda>m. fold (mark_step m) (enumerate 0 codes)) ms ind ! j
     = (ind ! j \<or> (\<exists>m \<in> set ms. startswith (codes ! j) m))"
proof (induction ms arbitrary: ind)
  case Nil
  then show ?case by simp
next
  case (Cons m ms)
  let ?ind = "fold (mark_step m) (enumerate 0 codes) ind"
  have l: "length ?ind = length codes" using Cons.prems by (simp add: mark_length)
  have "?ind ! j = (ind ! j \<or> startswith (codes ! j) m)"
    using Cons.prems by (simp add: mark_nth)
  with Cons.IH [OF l Cons.prems(2)] show ?case by auto
qed

lemma meas_ind_eq:
  "meas_ind ms codes = map (\<lambda>c. \<exists>m \<in> set ms. startswith c m) codes"
  by (rule nth_equalityI) (simp_all add: meas_ind_def meas_fold_length meas_fold_nth)

lemma np_select_map:
  "np_select xs (map P xs) = map np_str (filter P xs)"
  by (induction xs) (auto simp: np_select_def)

lemma retained_codes:
  "np_select codes (meas_ind ms codes)
     = map np_str (filter (\<lambda>c. \<exists>m \<in> set ms. startswith c m) codes)"
  by (simp add: meas_ind_eq np_select_map)

lemma mask_step_pair:
  "mask_step (j, i) a = a[j * 3 := i, j * 3 + 1 := i, j * 3 + 2 := i]"
  by (simp add: mask_step_def)

lemma fill_nth:
  "j < length a \<Longrightarrow>
   fold mask_step (enumerate n ind) a ! j
     = (if 3 * n \<le> j \<and> j < 3 * (n + length ind) then ind ! (j div 3 - n) else a ! j)"
proof (induction ind arbitrary: n a)
  case Nil
  then show ?case by auto
next
  case (Cons b bs)
  let ?a = "mask_step (n, b) a"
  have l: "j < length ?a" using Cons.prems by (simp add: mask_step_pair)
  have a: "?a ! j = (if 3 * n \<le> j \<and> j < 3 * n + 3 then b else a ! j)"
  proof (cases "3 * n \<le> j \<and> j < 3 * n + 3")
    case True
    then consider "j = n * 3" | "j = n * 3 + 1" | "j = n * 3 + 2" by linarith
    then show ?thesis
      using True Cons.prems by cases (simp_all add: mask_step_pair nth_list_update)
  next
    case False
    then show ?thesis
      using Cons.prems by (auto simp: mask_step_pair nth_list_update)
  qed
  have d: "j div 3 - n = 0" if "3 * n \<le> j" "j < 3 * n + 3" using that by simp
  have e: "j div 3 - n = Suc (j div 3 - Suc n)" if "3 * n + 3 \<le> j" using that by simp
  from Cons.IH [OF l, of "Suc n"] a show ?case
    by (auto simp: d e)
qed

lemma mask_slots:
  assumes "j < n"
  shows "fill_mask (meas_ind ms codes) (np_empty U n) ! j
     = (if j < 3 * length codes then \<exists>m \<in> set ms. startswith (codes ! (j div 3)) m else U j)"
proof -
  have "j div 3 < length codes" if "j < 3 * length codes" using that by simp
  with assms show ?thesis
    by (simp add: fill_mask_def fill_nth np_empty_def meas_ind_eq)
qed


text \<open>
  C2. The column-selection mask is allocated with \<^verbatim>\<open>np.empty\<close> and only its first
  \<open>3 * N\<close> slots are written, \<open>N\<close> being the number of codes the system declares. In the
  example file GPS declares two codes and GLONASS one, so \<open>Fmax = 2\<close> and the last three
  slots of the GLONASS mask keep what the memory held. With every unwritten slot true, the
  prefix \<^verbatim>\<open>C1\<close> retains one GLONASS code and its mask has six true slots, not three; with
  zeroed memory the same call gives three.
\<close>

theorem meas_mask_uninitialised:
  "obsheader3 decimal_floats dirty_memory [] demo_header None (Some [''C1''])
     = Inr (\<lparr>labels = [], hfields = [(''G'', [''C1C'']), (''R'', [''C1C''])],
             fields_ind = [(''G'', Mask [True, True, True, False, False, False]),
                           (''R'', Mask [True, True, True, True, True, True])],
             Fmax = 2\<rparr>, [])
   \<and> count_list [True, True, True, True, True, True] True \<noteq> 3 * length [''C1C'']
   \<and> obsheader3 decimal_floats zero_memory [] demo_header None (Some [''C1''])
     = Inr (\<lparr>labels = [], hfields = [(''G'', [''C1C'']), (''R'', [''C1C''])],
             fields_ind = [(''G'', Mask [True, True, True, False, False, False]),
                           (''R'', Mask [True, True, True, False, False, False])],
             Fmax = 2\<rparr>, [])"
  by code_simp

section \<open>Invariants of the epoch scan\<close>

lemma read_sats_result:
  "read_sats n f sv raw = (sv', raw', f') \<Longrightarrow>
     f' = drop n f \<and> set sv' \<subseteq> set sv \<union> insert [] ((take 3) ` set f)"
proof (induction n arbitrary: f sv raw)
  case 0
  then show ?case by auto
next
  case (Suc n)
  show ?case
  proof (cases f)
    case Nil
    with Suc.prems have "read_sats n [] (sv @ [take 3 []]) (raw @ drop 3 []) = (sv', raw', f')"
      by simp
    from Suc.IH[OF this] Nil show ?thesis by auto
  next
    case (Cons l g)
    with Suc.prems have "read_sats n g (sv @ [take 3 l]) (raw @ drop 3 l) = (sv', raw', f')"
      by simp
    from Suc.IH[OF this] Cons show ?thesis by auto
  qed
qed

lemma scan_invariant:
  assumes run: "scan F C h st f = Inr st'"
    and L: "set f \<subseteq> L"
    and P0: "P st"
    and skip: "\<And>st ln. P st \<Longrightarrow> P (note_offset F ln st)"
    and drop: "\<And>st ln t le. \<lbrakk>P st; decimate (interval C) (last_epoch st) t = Inr (False, le)\<rbrakk>
                 \<Longrightarrow> P ((note_offset F ln st)\<lparr>last_epoch := le\<rparr>)"
    and keep: "\<And>st ln t le sv raw d.
                 \<lbrakk>P st; ln \<in> L; timeobs F ln = Inr t; tlim_check (tlim C) t = Pass;
                  decimate (interval C) (last_epoch st) t = Inr (True, le);
                  set sv \<subseteq> insert [] ((take 3) ` L);
                  epoch (data st) raw h t sv (useindicators C) = Inr d\<rbrakk>
                 \<Longrightarrow> P ((note_offset F ln st)\<lparr>last_epoch := le, data := d\<rparr>)"
  shows "P st'"
  using run L P0
proof (induction f arbitrary: st rule: length_induct)
  case (1 f)
  note IH = "1.IH" [rule_format]
  show ?case
  proof (cases f)
    case Nil
    with "1.prems" show ?thesis by (simp add: scan.simps)
  next
    case (Cons ln g)
    with "1.prems" have r: "scan F C h st (ln # g) = Inr st'" and lnL: "ln \<in> L" and gL: "set g \<subseteq> L"
      by auto
    show ?thesis
    proof (cases "startswith ln ''>''")
      case False
      with r "1.prems" show ?thesis by (simp add: scan.simps)
    next
      case gt: True
      show ?thesis
      proof (cases "timeobs F ln")
        case (Inl e)
        with gt r have "scan F C h st g = Inr st'"
          by (simp add: scan.simps split: if_splits)
        from IH [OF _ this gL "1.prems"(3)] Cons show ?thesis by simp
      next
        case (Inr t)
        show ?thesis
        proof (cases "py_int (py_slice ln 33 35)")
          case None
          with gt Inr r show ?thesis by (simp add: scan.simps)
        next
          case (Some n)
          obtain sv raw f' where rs: "read_sats (nat n) g [] [] = (sv, raw, f')"
            by (cases "read_sats (nat n) g [] []") auto
          from read_sats_result [OF rs]
          have f': "f' = List.drop (nat n) g" and sv0: "set sv \<subseteq> insert [] ((take 3) ` set g)"
            by simp_all
          have "(take 3) ` set g \<subseteq> (take 3) ` L" using gL by (rule image_mono)
          with sv0 have svL: "set sv \<subseteq> insert [] ((take 3) ` L)" by blast
          have len: "length f' < length f" using f' Cons by simp
          have f'L: "set f' \<subseteq> L" using f' gL by (auto dest: in_set_dropD)
          show ?thesis
          proof (cases "tlim_check (tlim C) t")
            case Skip
            with gt Inr Some rs r have "scan F C h (note_offset F ln st) f' = Inr st'"
              by (simp add: scan.simps)
            from IH [OF len this f'L skip [OF "1.prems"(3)]] show ?thesis .
          next
            case Stop
            with gt Inr Some rs r have "st' = note_offset F ln st"
              by (simp add: scan.simps)
            with skip [OF "1.prems"(3)] show ?thesis by simp
          next
            case Pass
            show ?thesis
            proof (cases "decimate (interval C) (last_epoch st) t")
              case (Inl e)
              with gt Inr Some rs Pass r show ?thesis by (simp add: scan.simps)
            next
              case dec: (Inr kl)
              obtain k le where kl: "kl = (k, le)" by (cases kl)
              show ?thesis
              proof (cases k)
                case False
                with gt Inr Some rs Pass dec kl r
                have "scan F C h ((note_offset F ln st)\<lparr>last_epoch := le\<rparr>) f' = Inr st'"
                  by (simp add: scan.simps)
                moreover from dec kl False have "decimate (interval C) (last_epoch st) t = Inr (False, le)"
                  by simp
                ultimately show ?thesis
                  using IH [OF len _ f'L] drop [OF "1.prems"(3)] by blast
              next
                case True
                show ?thesis
                proof (cases "epoch (data st) raw h t sv (useindicators C)")
                  case (Inl e)
                  with gt Inr Some rs Pass dec kl True r show ?thesis by (simp add: scan.simps)
                next
                  case ep: (Inr d)
                  with gt Inr Some rs Pass dec kl True r
                  have "scan F C h ((note_offset F ln st)\<lparr>last_epoch := le, data := d\<rparr>) f' = Inr st'"
                    by (simp add: scan.simps)
                  moreover from dec kl True have "decimate (interval C) (last_epoch st) t = Inr (True, le)"
                    by simp
                  ultimately show ?thesis
                    using IH [OF len _ f'L] keep [OF "1.prems"(3) lnL Inr Pass _ svL ep] by blast
                qed
              qed
            qed
          qed
        qed
      qed
    qed
  qed
qed


lemma assemble_time:
  "set (ds_time (assemble n ds0 e)) \<subseteq> set (ds_time ds0) \<union> set (ds_time e)"
  by (auto simp: assemble_def list_union_def)

lemma assemble_sv:
  "set (ds_sv (assemble n ds0 e)) \<subseteq> set (ds_sv ds0) \<union> set (ds_sv e)"
  by (auto simp: assemble_def list_union_def)

lemma sat_rows_Inr:
  "sat_rows sk sv = Inr si \<Longrightarrow>
     [] \<notin> set sv \<and> (\<forall>i \<in> set si. i < length sv \<and> contains (take 1 (sv ! i)) sk)"
  by (auto simp: sat_rows_def in_set_enumerate_eq split: if_splits)

lemma epoch_loop_time:
  "epoch_loop h t sv ui flds ds0 = Inr d \<Longrightarrow> set (ds_time d) \<subseteq> insert t (set (ds_time ds0))"
proof (induction flds arbitrary: ds0)
  case Nil
  then show ?case by auto
next
  case (Cons p flds)
  obtain sk codes where p: "p = (sk, codes)" by (cases p)
  from Cons.prems p obtain si where si: "sat_rows sk sv = Inr si"
    by (auto split: sum.splits)
  show ?case
  proof (cases "length si = 0")
    case True
    with Cons.prems p si have "epoch_loop h t sv ui flds ds0 = Inr d" by simp
    from Cons.IH [OF this] show ?thesis .
  next
    case False
    let ?e = "\<lparr>ds_vars = keys (epoch_dsf codes ui), ds_time = [t],
               ds_sv = map (\<lambda>i. np_str (sv ! i)) si\<rparr>"
    from Cons.prems p si False
    have "epoch_loop h t sv ui flds (assemble (length (hfields h)) ds0 ?e) = Inr d"
      by (auto split: option.splits)
    from Cons.IH [OF this] assemble_time [of "length (hfields h)" ds0 ?e]
    show ?thesis by auto
  qed
qed

lemma epoch_loop_sv:
  "epoch_loop h t sv ui flds ds0 = Inr d \<Longrightarrow>
     set (ds_sv d) \<subseteq> set (ds_sv ds0)
        \<union> {np_str s |s. s \<in> set sv \<and> s \<noteq> [] \<and> (\<exists>sk \<in> set (keys flds). contains (take 1 s) sk)}"
proof (induction flds arbitrary: ds0)
  case Nil
  then show ?case by auto
next
  case (Cons p flds)
  obtain sk codes where p: "p = (sk, codes)" by (cases p)
  from Cons.prems p obtain si where si: "sat_rows sk sv = Inr si"
    by (auto split: sum.splits)
  have mono: "{np_str s |s. s \<in> set sv \<and> s \<noteq> [] \<and> (\<exists>sk \<in> set (keys flds). contains (take 1 s) sk)}
     \<subseteq> {np_str s |s. s \<in> set sv \<and> s \<noteq> [] \<and> (\<exists>sk \<in> set (keys (p # flds)). contains (take 1 s) sk)}"
    by (auto simp: keys_def)
  show ?case
  proof (cases "length si = 0")
    case True
    with Cons.prems p si have "epoch_loop h t sv ui flds ds0 = Inr d" by simp
    from Cons.IH [OF this] mono show ?thesis by blast
  next
    case False
    let ?e = "\<lparr>ds_vars = keys (epoch_dsf codes ui), ds_time = [t],
               ds_sv = map (\<lambda>i. np_str (sv ! i)) si\<rparr>"
    from Cons.prems p si False
    have "epoch_loop h t sv ui flds (assemble (length (hfields h)) ds0 ?e) = Inr d"
      by (auto split: option.splits)
    note a = Cons.IH [OF this]
    have "set (ds_sv ?e)
       \<subseteq> {np_str s |s. s \<in> set sv \<and> s \<noteq> [] \<and> (\<exists>sk \<in> set (keys (p # flds)). contains (take 1 s) sk)}"
    proof
      fix x assume "x \<in> set (ds_sv ?e)"
      then obtain i where i: "i \<in> set si" and x: "x = np_str (sv ! i)" by auto
      from sat_rows_Inr [OF si] i have "i < length sv" "contains (take 1 (sv ! i)) sk" "[] \<notin> set sv"
        by auto
      then have "sv ! i \<in> set sv" "sv ! i \<noteq> []" by (auto simp: in_set_conv_nth)
      with x p \<open>contains (take 1 (sv ! i)) sk\<close>
      show "x \<in> {np_str s |s. s \<in> set sv \<and> s \<noteq> [] \<and> (\<exists>sk \<in> set (keys (p # flds)). contains (take 1 s) sk)}"
        by (auto simp: keys_def)
    qed
    with a mono assemble_sv [of "length (hfields h)" ds0 ?e] show ?thesis by blast
  qed
qed


lemma epoch_time:
  "epoch ds0 raw h t sv ui = Inr d \<Longrightarrow> set (ds_time d) \<subseteq> insert t (set (ds_time ds0))"
  unfolding epoch_def by (rule epoch_loop_time)

lemma epoch_sv:
  "epoch ds0 raw h t sv ui = Inr d \<Longrightarrow>
     set (ds_sv d) \<subseteq> set (ds_sv ds0)
        \<union> {np_str s |s. s \<in> set sv \<and> s \<noteq> [] \<and> (\<exists>sk \<in> set (keys (hfields h)). contains (take 1 s) sk)}"
  unfolding epoch_def by (rule epoch_loop_sv)

lemma note_offset_fields [simp]:
  "last_epoch (note_offset F ln st) = last_epoch st"
  "data (note_offset F ln st) = data st"
  by (simp_all add: note_offset_def split: option.splits)

lemma tlim_check_Pass: "tlim_check (Some (lo, T)) t = Pass \<Longrightarrow> lo \<le> t \<and> t \<le> T"
  by (auto simp: tlim_check_def split: if_splits)

lemma scan_times_bounded:
  fixes F :: "'f floatlib"
  assumes "scan F C h st f = Inr st'" and "tlim C = Some (lo, T)"
    and "\<forall>t \<in> set (ds_time (data st)). t \<le> T"
  shows "\<forall>t \<in> set (ds_time (data st')). t \<le> T"
proof (rule scan_invariant [where P = "\<lambda>st. \<forall>t \<in> set (ds_time (data st)). t \<le> T" and L = "set f",
      OF assms(1) subset_refl assms(3)])
  fix st :: "'f scan_state" and ln t le sv raw d
  assume P: "\<forall>t \<in> set (ds_time (data st)). t \<le> T"
    and "tlim_check (tlim C) t = Pass"
    and e: "epoch (data st) raw h t sv (useindicators C) = Inr d"
  then have "t \<le> T" using assms(2) tlim_check_Pass by simp
  with P epoch_time [OF e]
  show "\<forall>t \<in> set (ds_time (data ((note_offset F ln st)\<lparr>last_epoch := le, data := d\<rparr>))). t \<le> T"
    by auto
qed simp_all


section \<open>Indicator columns in the result\<close>

lemma sat_rows_empty:
  assumes "sat_rows sk sv = Inr si"
  shows "(length si = 0) = (\<not> (\<exists>s \<in> set sv. contains (take 1 s) sk))"
proof -
  have si: "si = map fst (filter (\<lambda>(i, s). contains (take 1 s) sk) (enumerate 0 sv))"
    using assms by (auto simp: sat_rows_def split: if_splits)
  have "set sv = snd ` set (enumerate 0 sv)"
    by (metis map_snd_enumerate set_map)
  then have "(\<exists>s \<in> set sv. contains (take 1 s) sk)
      = (\<exists>x \<in> set (enumerate 0 sv). contains (take 1 (snd x)) sk)"
    by simp
  then show ?thesis
    unfolding si by (simp add: filter_empty_conv case_prod_beta)
qed

lemma assemble_vars:
  "set (ds_vars (assemble n ds0 e)) =
     (if n = 1 \<and> ds_vars ds0 \<noteq> [] then set (ds_vars ds0) else set (ds_vars ds0) \<union> set (ds_vars e))"
  by (auto simp: assemble_def list_union_def)

lemma epoch_loop_step:
  assumes "epoch_loop h t sv ui ((sk, codes) # flds) ds0 = Inr d"
  shows "\<exists>si. sat_rows sk sv = Inr si
     \<and> (if \<exists>s \<in> set sv. contains (take 1 s) sk
         then epoch_loop h t sv ui flds
                (assemble (length (hfields h)) ds0
                   \<lparr>ds_vars = keys (epoch_dsf codes ui), ds_time = [t],
                    ds_sv = map (\<lambda>i. np_str (sv ! i)) si\<rparr>) = Inr d
         else epoch_loop h t sv ui flds ds0 = Inr d)"
proof -
  from assms obtain si where si: "sat_rows sk sv = Inr si"
    by (auto split: sum.splits)
  note em = sat_rows_empty [OF si]
  show ?thesis
  proof (cases "length si = 0")
    case True
    with assms si em show ?thesis by simp
  next
    case False
    with assms si have "epoch_loop h t sv ui flds
                (assemble (length (hfields h)) ds0
                   \<lparr>ds_vars = keys (epoch_dsf codes ui), ds_time = [t],
                    ds_sv = map (\<lambda>i. np_str (sv ! i)) si\<rparr>) = Inr d"
      by (simp split: option.splits)
    with False si em show ?thesis by simp
  qed
qed

lemma epoch_loop_vars:
  "epoch_loop h t sv ui flds ds0 = Inr d \<Longrightarrow> length (hfields h) \<noteq> 1 \<Longrightarrow>
     set (ds_vars d) = set (ds_vars ds0)
       \<union> (\<Union>p \<in> set (filter (\<lambda>p. \<exists>s \<in> set sv. contains (take 1 s) (fst p)) flds).
             set (keys (epoch_dsf (snd p) ui)))"
proof (induction flds arbitrary: ds0)
  case Nil
  then show ?case by simp
next
  case (Cons p flds)
  obtain sk codes where p: "p = (sk, codes)" by (cases p)
  from epoch_loop_step [OF Cons.prems(1) [unfolded p]] obtain si where
    st: "if \<exists>s \<in> set sv. contains (take 1 s) sk
         then epoch_loop h t sv ui flds
                (assemble (length (hfields h)) ds0
                   \<lparr>ds_vars = keys (epoch_dsf codes ui), ds_time = [t],
                    ds_sv = map (\<lambda>i. np_str (sv ! i)) si\<rparr>) = Inr d
         else epoch_loop h t sv ui flds ds0 = Inr d"
    by blast
  show ?case
  proof (cases "\<exists>s \<in> set sv. contains (take 1 s) sk")
    case False
    with st have "epoch_loop h t sv ui flds ds0 = Inr d" by simp
    from Cons.IH [OF this Cons.prems(2)] False p show ?thesis by simp
  next
    case True
    with st have "epoch_loop h t sv ui flds
                (assemble (length (hfields h)) ds0
                   \<lparr>ds_vars = keys (epoch_dsf codes ui), ds_time = [t],
                    ds_sv = map (\<lambda>i. np_str (sv ! i)) si\<rparr>) = Inr d" by simp
    from Cons.IH [OF this Cons.prems(2)] True p Cons.prems(2) show ?thesis
      by (simp add: assemble_vars Un_assoc)
  qed
qed

lemma epoch_loop_vars_upper:
  "epoch_loop h t sv ui flds ds0 = Inr d \<Longrightarrow>
     set (ds_vars d) \<subseteq> set (ds_vars ds0) \<union> (\<Union>p \<in> set flds. set (keys (epoch_dsf (snd p) ui)))"
proof (induction flds arbitrary: ds0)
  case Nil
  then show ?case by simp
next
  case (Cons p flds)
  obtain sk codes where p: "p = (sk, codes)" by (cases p)
  from epoch_loop_step [OF Cons.prems(1) [unfolded p]] obtain si where
    st: "if \<exists>s \<in> set sv. contains (take 1 s) sk
         then epoch_loop h t sv ui flds
                (assemble (length (hfields h)) ds0
                   \<lparr>ds_vars = keys (epoch_dsf codes ui), ds_time = [t],
                    ds_sv = map (\<lambda>i. np_str (sv ! i)) si\<rparr>) = Inr d
         else epoch_loop h t sv ui flds ds0 = Inr d"
    by blast
  show ?case
  proof (cases "\<exists>s \<in> set sv. contains (take 1 s) sk")
    case False
    with st have "epoch_loop h t sv ui flds ds0 = Inr d" by simp
    from Cons.IH [OF this] show ?thesis by auto
  next
    case True
    let ?e = "\<lparr>ds_vars = keys (epoch_dsf codes ui), ds_time = [t],
                    ds_sv = map (\<lambda>i. np_str (sv ! i)) si\<rparr>"
    from True st have "epoch_loop h t sv ui flds (assemble (length (hfields h)) ds0 ?e) = Inr d"
      by simp
    note ih = Cons.IH [OF this]
    have "set (ds_vars (assemble (length (hfields h)) ds0 ?e))
        \<subseteq> set (ds_vars ds0) \<union> set (keys (epoch_dsf codes ui))"
      by (simp add: assemble_vars)
    with ih p show ?thesis by auto
  qed
qed

lemma epoch_vars_single:
  assumes "epoch ds0 raw h t sv ui = Inr d" and "length (hfields h) = 1"
  shows "ds_vars ds0 \<noteq> [] \<Longrightarrow> ds_vars d = ds_vars ds0"
    and "ds_vars ds0 = [] \<Longrightarrow> set (ds_vars d) = set (ds_vars ds0)
       \<union> (\<Union>p \<in> set (filter (\<lambda>p. \<exists>s \<in> set sv. contains (take 1 s) (fst p)) (hfields h)).
             set (keys (epoch_dsf (snd p) ui)))"
proof -
  from assms(2) obtain sk codes where h: "hfields h = [(sk, codes)]"
    by (cases "hfields h") auto
  from assms(1) have "epoch_loop h t sv ui [(sk, codes)] ds0 = Inr d"
    by (simp add: epoch_def h)
  from epoch_loop_step [OF this] obtain si where
    st: "if \<exists>s \<in> set sv. contains (take 1 s) sk
         then epoch_loop h t sv ui []
                (assemble (length (hfields h)) ds0
                   \<lparr>ds_vars = keys (epoch_dsf codes ui), ds_time = [t],
                    ds_sv = map (\<lambda>i. np_str (sv ! i)) si\<rparr>) = Inr d
         else epoch_loop h t sv ui [] ds0 = Inr d"
    by blast
  let ?e = "\<lparr>ds_vars = keys (epoch_dsf codes ui), ds_time = [t],
                    ds_sv = map (\<lambda>i. np_str (sv ! i)) si\<rparr>"
  have d: "d = (if \<exists>s \<in> set sv. contains (take 1 s) sk then assemble 1 ds0 ?e else ds0)"
    using st assms(2) by (auto split: if_splits)
  show "ds_vars d = ds_vars ds0" if "ds_vars ds0 \<noteq> []"
    using that unfolding d by (simp add: assemble_def)
  show "set (ds_vars d) = set (ds_vars ds0)
       \<union> (\<Union>p \<in> set (filter (\<lambda>p. \<exists>s \<in> set sv. contains (take 1 s) (fst p)) (hfields h)).
             set (keys (epoch_dsf (snd p) ui)))" if "ds_vars ds0 = []"
    using that unfolding d h by (simp add: assemble_def)
qed

lemma epoch_vars:
  assumes "epoch ds0 raw h t sv ui = Inr d" and "length (hfields h) \<noteq> 1 \<or> ds_vars ds0 = []"
  shows "set (ds_vars d) = set (ds_vars ds0)
       \<union> (\<Union>p \<in> set (filter (\<lambda>p. \<exists>s \<in> set sv. contains (take 1 s) (fst p)) (hfields h)).
             set (keys (epoch_dsf (snd p) ui)))"
proof (cases "length (hfields h) = 1")
  case True
  with assms(2) have "ds_vars ds0 = []" by simp
  from epoch_vars_single(2) [OF assms(1) True this] show ?thesis .
next
  case False
  from epoch_loop_vars [OF assms(1) [unfolded epoch_def] False] show ?thesis .
qed

lemma scan_vars:
  fixes F :: "'f floatlib"
  assumes "scan F C h st f = Inr st'"
    and "set (ds_vars (data st))
           \<subseteq> (\<Union>p \<in> set (hfields h). set (keys (epoch_dsf (snd p) (useindicators C))))"
  shows "set (ds_vars (data st'))
           \<subseteq> (\<Union>p \<in> set (hfields h). set (keys (epoch_dsf (snd p) (useindicators C))))"
proof (rule scan_invariant [where L = "set f" and
      P = "\<lambda>st. set (ds_vars (data st))
           \<subseteq> (\<Union>p \<in> set (hfields h). set (keys (epoch_dsf (snd p) (useindicators C))))",
      OF assms(1) subset_refl assms(2)])
  fix st :: "'f scan_state" and ln t le sv raw d
  assume P: "set (ds_vars (data st))
           \<subseteq> (\<Union>p \<in> set (hfields h). set (keys (epoch_dsf (snd p) (useindicators C))))"
    and e: "epoch (data st) raw h t sv (useindicators C) = Inr d"
  from epoch_loop_vars_upper [OF e [unfolded epoch_def]] P
  have "set (ds_vars d)
           \<subseteq> (\<Union>p \<in> set (hfields h). set (keys (epoch_dsf (snd p) (useindicators C))))"
    by blast
  then show "set (ds_vars (data ((note_offset F ln st)\<lparr>last_epoch := le, data := d\<rparr>)))
           \<subseteq> (\<Union>p \<in> set (hfields h). set (keys (epoch_dsf (snd p) (useindicators C))))"
    by simp
qed simp_all

lemma lli_not_ssi: "c @ ''lli'' \<noteq> k @ ''ssi''"
  by (simp add: append_eq_append_conv)

lemma lli_in_keys:
  "c @ ''lli'' \<in> set (keys (epoch_dsf cs ui)) \<Longrightarrow>
     c @ ''lli'' \<in> set cs \<or> (ui \<and> (startswith c ''L1'' \<or> startswith c ''L2'') \<and> c \<in> set cs)"
  by (cases ui) (auto simp: keys_epoch_dsf lli_not_ssi)

lemma rinexobs3_scan:
  "rinexobs3 F U info f use w ui meas iv = Inr d \<Longrightarrow>
     \<exists>h f' st. obsheader3 F U info f (norm_use use) (norm_meas meas) = Inr (h, f')
       \<and> scan F \<lparr>tlim = w, interval = iv, useindicators = ui\<rparr> h init_state f' = Inr st
       \<and> d = patch_sv (data st)"
  by (auto simp: rinexobs3_def split: sum.splits prod.splits)

lemma rinexobs3_vars:
  fixes F :: "'f floatlib"
  assumes "rinexobs3 F U info f use w ui meas iv = Inr r"
    and "obsheader3 F U info f (norm_use use) (norm_meas meas) = Inr (h, f')"
  shows "\<forall>x \<in> set (ds_vars r). \<exists>cs \<in> snd ` set (hfields h). x \<in> set (keys (epoch_dsf cs ui))"
proof -
  from rinexobs3_scan [OF assms(1)] assms(2) obtain st :: "'f scan_state" where
    s: "scan F \<lparr>tlim = w, interval = iv, useindicators = ui\<rparr> h init_state f' = Inr st"
    and r: "r = patch_sv (data st)"
    by auto
  have "set (ds_vars (data st))
      \<subseteq> (\<Union>p \<in> set (hfields h).
            set (keys (epoch_dsf (snd p) (useindicators \<lparr>tlim = w, interval = iv, useindicators = ui\<rparr>))))"
    by (rule scan_vars [OF s]) (simp add: init_state_def empty_dataset_def)
  with r have "set (ds_vars r) \<subseteq> (\<Union>p \<in> set (hfields h). set (keys (epoch_dsf (snd p) ui)))"
    by (simp add: patch_sv_def)
  then show ?thesis by (auto simp: subset_iff)
qed

text \<open>
  C9. \<^verbatim>\<open>_indicators\<close> always stores the SSI column under the code's name followed by \<^verbatim>\<open>ssi\<close>,
  and stores the LLI column under the name followed by \<^verbatim>\<open>lli\<close> exactly when the name starts
  with \<^verbatim>\<open>L1\<close> or \<^verbatim>\<open>L2\<close> (otherwise that key is left as it was). \<^verbatim>\<open>_epoch\<close> calls it for every
  code of a system exactly when extraction is enabled: the table of a system then has every
  code, every code's SSI name, and the LLI name of a code exactly when the code starts with
  \<^verbatim>\<open>L1\<close> or \<^verbatim>\<open>L2\<close> or the header itself declares a code of that name; without extraction
  the table has the codes only. The variables of the dataset that \<^verbatim>\<open>_epoch\<close> returns are those
  of the dataset it was given and the tables of the systems that have a satellite in the
  epoch (when one system only is retained and the dataset is not empty, \<^verbatim>\<open>concat\<close> keeps the
  variables it was given). Every variable of what \<^verbatim>\<open>rinexobs3\<close> returns is in the table of a
  retained system; so a variable named \<open>c\<close> followed by \<^verbatim>\<open>lli\<close> is there only if extraction is
  enabled and \<open>c\<close> is a retained code that starts with \<^verbatim>\<open>L1\<close> or \<^verbatim>\<open>L2\<close>, or if the header
  declares a code of that very name.
\<close>

theorem indicator_columns:
  "map_of (indicators d0 k (a, b)) (k @ ''ssi'') = Some b
   \<and> map_of (indicators d0 k (a, b)) (k @ ''lli'') =
       (if startswith k ''L1'' \<or> startswith k ''L2'' then Some a else map_of d0 (k @ ''lli''))
   \<and> (\<forall>c \<in> set codes.
         c @ ''ssi'' \<in> set (keys (epoch_dsf codes True))
         \<and> (c @ ''lli'' \<in> set (keys (epoch_dsf codes True))
              \<longleftrightarrow> startswith c ''L1'' \<or> startswith c ''L2'' \<or> c @ ''lli'' \<in> set codes))
   \<and> set (keys (epoch_dsf codes False)) = set codes
   \<and> (epoch ds raw h t sv ui = Inr d \<and> (length (hfields h) \<noteq> 1 \<or> ds_vars ds = []) \<longrightarrow>
        set (ds_vars d) = set (ds_vars ds)
          \<union> (\<Union>p \<in> set (filter (\<lambda>p. \<exists>s \<in> set sv. contains (take 1 s) (fst p)) (hfields h)).
                set (keys (epoch_dsf (snd p) ui))))
   \<and> (epoch ds raw h t sv ui = Inr d \<and> length (hfields h) = 1 \<and> ds_vars ds \<noteq> [] \<longrightarrow>
        ds_vars d = ds_vars ds)
   \<and> (rinexobs3 F U info f use w ui meas iv = Inr r
        \<and> obsheader3 F U info f (norm_use use) (norm_meas meas) = Inr (h', f') \<longrightarrow>
        (\<forall>x \<in> set (ds_vars r). \<exists>cs \<in> snd ` set (hfields h'). x \<in> set (keys (epoch_dsf cs ui)))
        \<and> (c @ ''lli'' \<in> set (ds_vars r) \<longrightarrow>
             ui \<and> (startswith c ''L1'' \<or> startswith c ''L2'')
                \<and> (\<exists>cs \<in> snd ` set (hfields h'). c \<in> set cs)
             \<or> (\<exists>cs \<in> snd ` set (hfields h'). c @ ''lli'' \<in> set cs)))"
proof (intro conjI ballI impI)
  show "map_of (indicators d0 k (a, b)) (k @ ''ssi'') = Some b"
    by (simp add: indicators_def Let_def map_of_dict_set)
  show "map_of (indicators d0 k (a, b)) (k @ ''lli'') =
       (if startswith k ''L1'' \<or> startswith k ''L2'' then Some a else map_of d0 (k @ ''lli''))"
    by (simp add: indicators_def Let_def map_of_dict_set)
  show "set (keys (epoch_dsf codes False)) = set codes"
    by (simp add: keys_epoch_dsf)
  show "set (ds_vars d) = set (ds_vars ds)
          \<union> (\<Union>p \<in> set (filter (\<lambda>p. \<exists>s \<in> set sv. contains (take 1 s) (fst p)) (hfields h)).
                set (keys (epoch_dsf (snd p) ui)))"
    if a: "epoch ds raw h t sv ui = Inr d \<and> (length (hfields h) \<noteq> 1 \<or> ds_vars ds = [])"
    by (rule epoch_vars [OF a [THEN conjunct1] a [THEN conjunct2]])
  show "ds_vars d = ds_vars ds"
    if a: "epoch ds raw h t sv ui = Inr d \<and> length (hfields h) = 1 \<and> ds_vars ds \<noteq> []"
    by (rule epoch_vars_single(1) [OF a [THEN conjunct1] a [THEN conjunct2, THEN conjunct1]
          a [THEN conjunct2, THEN conjunct2]])
next
  fix c assume c: "c \<in> set codes"
  then show "c @ ''ssi'' \<in> set (keys (epoch_dsf codes True))"
    by (simp add: keys_epoch_dsf)
  from c show "c @ ''lli'' \<in> set (keys (epoch_dsf codes True))
              \<longleftrightarrow> startswith c ''L1'' \<or> startswith c ''L2'' \<or> c @ ''lli'' \<in> set codes"
    by (auto simp: keys_epoch_dsf)
next
  fix x
  assume a: "rinexobs3 F U info f use w ui meas iv = Inr r
        \<and> obsheader3 F U info f (norm_use use) (norm_meas meas) = Inr (h', f')"
    and x: "x \<in> set (ds_vars r)"
  from rinexobs3_vars [OF a [THEN conjunct1] a [THEN conjunct2]] x
  show "\<exists>cs \<in> snd ` set (hfields h'). x \<in> set (keys (epoch_dsf cs ui))" by (rule bspec)
next
  assume a: "rinexobs3 F U info f use w ui meas iv = Inr r
        \<and> obsheader3 F U info f (norm_use use) (norm_meas meas) = Inr (h', f')"
    and x: "c @ ''lli'' \<in> set (ds_vars r)"
  from rinexobs3_vars [OF a [THEN conjunct1] a [THEN conjunct2]] x
  obtain cs where cs: "cs \<in> snd ` set (hfields h')"
    and k: "c @ ''lli'' \<in> set (keys (epoch_dsf cs ui))" by blast
  from lli_in_keys [OF k] cs
  show "ui \<and> (startswith c ''L1'' \<or> startswith c ''L2'')
                \<and> (\<exists>cs \<in> snd ` set (hfields h'). c \<in> set cs)
             \<or> (\<exists>cs \<in> snd ` set (hfields h'). c @ ''lli'' \<in> set cs)"
    by blast
qed

text \<open>With extraction, the example file yields no column \<^verbatim>\<open>C1Clli\<close>.\<close>

theorem indicator_columns_witness:
  "rinexobs3 decimal_floats zero_memory [] demo_file UseNone None True MeasNone None
     = Inr \<lparr>ds_vars = [''C1C'', ''C1Cssi'', ''L1C'', ''L1Clli'', ''L1Cssi''],
            ds_time = [63713433600000000, 63713433625000000, 63713433626000000],
            ds_sv = [''G07'']\<rparr>
   \<and> ''C1Clli'' \<notin> set [''C1C'', ''C1Cssi'', ''L1C'', ''L1Clli'', ''L1Cssi'']
   \<and> rinexobs3 decimal_floats zero_memory [] demo_file UseNone None False MeasNone None
     = Inr \<lparr>ds_vars = [''C1C'', ''L1C''],
            ds_time = [63713433600000000, 63713433625000000, 63713433626000000],
            ds_sv = [''G07'']\<rparr>"
proof -
  let ?D = "\<lparr>ds_vars = [''C1C'', ''C1Cssi'', ''L1C'', ''L1Clli'', ''L1Cssi''],
            ds_time = [63713433600000000, 63713433625000000, 63713433626000000],
            ds_sv = [''G07'']\<rparr>"
  have r: "rinexobs3 decimal_floats zero_memory [] demo_file UseNone None True MeasNone None = Inr ?D"
    by code_simp
  have r': "rinexobs3 decimal_floats zero_memory [] demo_file UseNone None False MeasNone None
     = Inr \<lparr>ds_vars = [''C1C'', ''L1C''],
            ds_time = [63713433600000000, 63713433625000000, 63713433626000000],
            ds_sv = [''G07'']\<rparr>"
    by code_simp
  have o: "obsheader3 decimal_floats zero_memory [] demo_file (norm_use UseNone) (norm_meas MeasNone)
             = Inr (demo_hdr, demo_body)"
    by code_simp
  have n1: "\<not> (startswith ''C1C'' ''L1'' \<or> startswith ''C1C'' ''L2'')" by code_simp
  have n2: "\<not> (\<exists>cs \<in> snd ` set (hfields demo_hdr). ''C1C'' @ ''lli'' \<in> set cs)"
    by (simp add: demo_hdr_def)
  from indicator_columns [where F = decimal_floats and U = zero_memory and info = "[]"
      and f = demo_file and use = UseNone and w = None and ui = True and meas = MeasNone
      and iv = None and r = ?D and h' = demo_hdr and f' = demo_body and c = "''C1C''",
      THEN conjunct2, THEN conjunct2, THEN conjunct2, THEN conjunct2, THEN conjunct2,
      THEN conjunct2, THEN mp, OF conjI [OF r o], THEN conjunct2] n1 n2
  have "''C1C'' @ ''lli'' \<notin> set (ds_vars ?D)" by blast
  then have "''C1Clli'' \<notin> set [''C1C'', ''C1Cssi'', ''L1C'', ''L1Clli'', ''L1Cssi'']" by simp
  with r r' show ?thesis by (intro conjI)
qed

section \<open>The upper time bound\<close>

text \<open>
  C4, as the code has it. With a window \<open>(lo, T)\<close> no time later than \<open>T\<close> is in the result.
  At an epoch line whose time is later than \<open>T\<close> and not earlier than \<open>lo\<close> the scan ends
  (after the satellite count of that line is read, which can raise): the outcome does not
  depend on the lines that follow. The lower bound is tested first, so an epoch earlier
  than \<open>lo\<close> is skipped and the scan goes on after its satellite lines, also when its time
  is later than \<open>T\<close>.
\<close>

theorem upper_time_bound:
  "(rinexobs3 F U info f use (Some (lo, T)) ui meas iv = Inr d \<longrightarrow> (\<forall>t \<in> set (ds_time d). t \<le> T))
   \<and> (tlim C = Some (lo, T) \<and> startswith ln ''>'' \<and> timeobs F ln = Inr t \<and> T < t \<and> lo \<le> t \<longrightarrow>
        scan F C h st (ln # g) =
          (case py_int (py_slice ln 33 35) of
             None \<Rightarrow> Inl ValueError
           | Some n \<Rightarrow> Inr (note_offset F ln st)))
   \<and> (tlim C = Some (lo, T) \<and> startswith ln ''>'' \<and> timeobs F ln = Inr t \<and> t < lo \<longrightarrow>
        scan F C h st (ln # g) =
          (case py_int (py_slice ln 33 35) of
             None \<Rightarrow> Inl ValueError
           | Some n \<Rightarrow> scan F C h (note_offset F ln st) (drop (nat n) g)))"
proof (intro conjI impI)
  assume r: "rinexobs3 F U info f use (Some (lo, T)) ui meas iv = Inr d"
  then obtain h f' st' where
    s: "scan F \<lparr>tlim = Some (lo, T), interval = iv, useindicators = ui\<rparr> h init_state f' = Inr st'"
    and d: "d = patch_sv (data st')"
    by (auto simp: rinexobs3_def split: sum.splits prod.splits)
  have "\<forall>t \<in> set (ds_time (data st')). t \<le> T"
    by (rule scan_times_bounded [OF s]) (simp_all add: init_state_def empty_dataset_def)
  with d show "\<forall>t \<in> set (ds_time d). t \<le> T" by (simp add: patch_sv_def)
next
  assume a: "tlim C = Some (lo, T) \<and> startswith ln ''>'' \<and> timeobs F ln = Inr t \<and> T < t \<and> lo \<le> t"
  then have "tlim_check (tlim C) t = Stop" by (simp add: tlim_check_def)
  with a show "scan F C h st (ln # g) =
          (case py_int (py_slice ln 33 35) of
             None \<Rightarrow> Inl ValueError
           | Some n \<Rightarrow> Inr (note_offset F ln st))"
    by (simp add: scan.simps split: option.splits prod.splits)
next
  assume a: "tlim C = Some (lo, T) \<and> startswith ln ''>'' \<and> timeobs F ln = Inr t \<and> t < lo"
  then have "tlim_check (tlim C) t = Skip" by (simp add: tlim_check_def)
  with a show "scan F C h st (ln # g) =
          (case py_int (py_slice ln 33 35) of
             None \<Rightarrow> Inl ValueError
           | Some n \<Rightarrow> scan F C h (note_offset F ln st) (drop (nat n) g))"
    by (auto simp: scan.simps split: option.splits prod.splits dest: read_sats_result)
qed


text \<open>
  The example file with the window from 0 s to 10 s: one epoch is kept, and the scan that
  starts at the epoch of 25 s ends there.
\<close>

theorem upper_time_bound_witness:
  "rinexobs3 decimal_floats zero_memory [] demo_file UseNone
       (Some (63713433600000000, 63713433610000000)) False MeasNone None
     = Inr \<lparr>ds_vars = [''C1C'', ''L1C''], ds_time = [63713433600000000], ds_sv = [''G07'']\<rparr>
   \<and> (63713433600000000 :: int) \<le> 63713433610000000
   \<and> scan decimal_floats
         \<lparr>tlim = Some (63713433600000000, 63713433610000000), interval = None, useindicators = False\<rparr>
         demo_hdr init_state [line_epoch_25, line_sat_G07, line_epoch_26, line_sat_G07]
       = Inr init_state"
proof -
  let ?C = "\<lparr>tlim = Some (63713433600000000, 63713433610000000), interval = None,
             useindicators = False\<rparr>"
  have r: "rinexobs3 decimal_floats zero_memory [] demo_file UseNone
       (Some (63713433600000000, 63713433610000000)) False MeasNone None
     = Inr \<lparr>ds_vars = [''C1C'', ''L1C''], ds_time = [63713433600000000], ds_sv = [''G07'']\<rparr>"
    by code_simp
  from upper_time_bound [THEN conjunct1, THEN mp, OF r]
  have b: "(63713433600000000 :: int) \<le> 63713433610000000" by simp
  have h: "tlim ?C = Some (63713433600000000, 63713433610000000) \<and> startswith line_epoch_25 ''>''
     \<and> timeobs decimal_floats line_epoch_25 = Inr 63713433625000000
     \<and> (63713433610000000 :: int) < 63713433625000000
     \<and> (63713433600000000 :: int) \<le> 63713433625000000"
    by code_simp
  have n: "py_int (py_slice line_epoch_25 33 35) = Some 1" by code_simp
  have o: "note_offset decimal_floats line_epoch_25 (init_state :: sample_float scan_state) = init_state"
    by code_simp
  from upper_time_bound [THEN conjunct2, THEN conjunct1, THEN mp, OF h,
      of demo_hdr init_state "[line_sat_G07, line_epoch_26, line_sat_G07]"]
  have "scan decimal_floats ?C demo_hdr init_state
          [line_epoch_25, line_sat_G07, line_epoch_26, line_sat_G07] = Inr init_state"
    by (simp only: n o option.case)
  with r b show ?thesis by (simp only: simp_thms)
qed

text \<open>
  C4 as stated fails when the lower bound is later than the upper one. With the window
  (30 s, 10 s) the epoch at 25 s exceeds \<open>T\<close>, yet the scan reads on: a following epoch
  line with an unreadable satellite count turns the result into \<^verbatim>\<open>ValueError\<close>.
\<close>

theorem upper_time_bound_counterexample:
  "timeobs decimal_floats line_epoch_25 = Inr 63713433625000000
   \<and> (63713433610000000 :: int) < 63713433625000000
   \<and> rinexobs3 decimal_floats zero_memory [] (demo_header @ [line_epoch_25, line_sat_G07]) UseNone
        (Some (63713433630000000, 63713433610000000)) False MeasNone None = Inr empty_dataset
   \<and> rinexobs3 decimal_floats zero_memory []
        (demo_header @ [line_epoch_25, line_sat_G07, line_epoch_bad_count]) UseNone
        (Some (63713433630000000, 63713433610000000)) False MeasNone None = Inl ValueError"
  by code_simp

section \<open>Decimation\<close>

lemma decimate_keep:
  "decimate (Some I) (Some r) t = Inr (True, le) \<Longrightarrow> I \<le> t - r \<and> le = Some (r + I)"
  by (auto simp: decimate_def dt_add_def split: if_splits)

lemma decimate_drop:
  "decimate iv le0 t = Inr (False, le) \<Longrightarrow> le = le0 \<and> (\<exists>I r. iv = Some I \<and> le0 = Some r \<and> t - r < I)"
  by (auto simp: decimate_def dt_add_def split: if_splits option.splits)

lemma scan_reference_from:
  fixes F :: "'f floatlib"
  assumes "scan F C h st f = Inr st'" and "interval C = Some I" and "last_epoch st = Some r"
  shows "\<exists>k. last_epoch st' = Some (r + int k * I)"
proof (rule scan_invariant [where P = "\<lambda>st. \<exists>k. last_epoch st = Some (r + int k * I)" and L = "set f",
      OF assms(1) subset_refl])
  show "\<exists>k. last_epoch st = Some (r + int k * I)"
    using assms(3) by (intro exI [of _ 0]) simp
next
  fix st :: "'f scan_state" and ln t le
  assume "\<exists>k. last_epoch st = Some (r + int k * I)"
    and "decimate (interval C) (last_epoch st) t = Inr (False, le)"
  then show "\<exists>k. last_epoch ((note_offset F ln st)\<lparr>last_epoch := le\<rparr>) = Some (r + int k * I)"
    by (auto dest: decimate_drop)
next
  fix st :: "'f scan_state" and ln t le sv raw d
  assume P: "\<exists>k. last_epoch st = Some (r + int k * I)"
    and dec: "decimate (interval C) (last_epoch st) t = Inr (True, le)"
  from P obtain k where k: "last_epoch st = Some (r + int k * I)" by blast
  from dec k assms(2) have "decimate (Some I) (Some (r + int k * I)) t = Inr (True, le)" by simp
  from decimate_keep [OF this] have "le = Some (r + int (Suc k) * I)"
    by (simp add: algebra_simps)
  then show "\<exists>k. last_epoch ((note_offset F ln st)\<lparr>last_epoch := le, data := d\<rparr>) = Some (r + int k * I)"
    by (intro exI [of _ "Suc k"]) simp
qed simp

lemma scan_reference_first:
  fixes F :: "'f floatlib"
  assumes "scan F C h st f = Inr st'" and "interval C = Some I" and "last_epoch st = None"
  shows "last_epoch st' = None
     \<or> (\<exists>ln \<in> set f. \<exists>t0 k. timeobs F ln = Inr t0 \<and> last_epoch st' = Some (t0 + int k * I))"
proof (rule scan_invariant [where L = "set f" and
      P = "\<lambda>st. last_epoch st = None
     \<or> (\<exists>ln \<in> set f. \<exists>t0 k. timeobs F ln = Inr t0 \<and> last_epoch st = Some (t0 + int k * I))",
      OF assms(1) subset_refl])
  show "last_epoch st = None
     \<or> (\<exists>ln \<in> set f. \<exists>t0 k. timeobs F ln = Inr t0 \<and> last_epoch st = Some (t0 + int k * I))"
    using assms(3) by simp
next
  fix st :: "'f scan_state" and ln t le
  assume "last_epoch st = None
     \<or> (\<exists>ln \<in> set f. \<exists>t0 k. timeobs F ln = Inr t0 \<and> last_epoch st = Some (t0 + int k * I))"
    and "decimate (interval C) (last_epoch st) t = Inr (False, le)"
  then show "last_epoch ((note_offset F ln st)\<lparr>last_epoch := le\<rparr>) = None
     \<or> (\<exists>l \<in> set f. \<exists>t0 k. timeobs F l = Inr t0
           \<and> last_epoch ((note_offset F ln st)\<lparr>last_epoch := le\<rparr>) = Some (t0 + int k * I))"
    by (auto dest: decimate_drop)
next
  fix st :: "'f scan_state" and ln t le sv raw d
  assume P: "last_epoch st = None
     \<or> (\<exists>ln \<in> set f. \<exists>t0 k. timeobs F ln = Inr t0 \<and> last_epoch st = Some (t0 + int k * I))"
    and ln: "ln \<in> set f" "timeobs F ln = Inr t"
    and dec: "decimate (interval C) (last_epoch st) t = Inr (True, le)"
  have "\<exists>l \<in> set f. \<exists>t0 k. timeobs F l = Inr t0 \<and> le = Some (t0 + int k * I)"
  proof (cases "last_epoch st")
    case None
    with dec assms(2) have "le = Some (t + int 0 * I)" by (simp add: decimate_def)
    with ln show ?thesis by blast
  next
    case (Some x)
    with P obtain l t0 k where l: "l \<in> set f" "timeobs F l = Inr t0" and x: "x = t0 + int k * I"
      by auto
    from dec Some assms(2) have "decimate (Some I) (Some x) t = Inr (True, le)" by simp
    from decimate_keep [OF this] x have "le = Some (t0 + int (Suc k) * I)"
      by (simp add: algebra_simps)
    with l show ?thesis by blast
  qed
  then show "last_epoch ((note_offset F ln st)\<lparr>last_epoch := le, data := d\<rparr>) = None
     \<or> (\<exists>l \<in> set f. \<exists>t0 k. timeobs F l = Inr t0
           \<and> last_epoch ((note_offset F ln st)\<lparr>last_epoch := le, data := d\<rparr>) = Some (t0 + int k * I))"
    by simp
qed simp


lemma note_offset_last:
  "last_epoch st = le \<Longrightarrow> (note_offset F ln st)\<lparr>last_epoch := le\<rparr> = note_offset F ln st"
  by (auto simp: note_offset_def split: option.splits)

lemma scan_decimation_step:
  assumes "interval C = Some I" "startswith ln ''>''" "timeobs F ln = Inr t"
    "tlim_check (tlim C) t = Pass" "py_int (py_slice ln 33 35) = Some n"
    "read_sats (nat n) g [] [] = (sv, raw, g')"
  shows "scan F C h st (ln # g) =
     (case last_epoch st of
        None \<Rightarrow>
          (case epoch (data st) raw h t sv (useindicators C) of
             Inl e \<Rightarrow> Inl e
           | Inr d \<Rightarrow> scan F C h ((note_offset F ln st)\<lparr>last_epoch := Some t, data := d\<rparr>) g')
      | Some r \<Rightarrow>
          if t - r < I then scan F C h (note_offset F ln st) g'
          else if 0 \<le> r + I \<and> r + I < max_us then
            (case epoch (data st) raw h t sv (useindicators C) of
               Inl e \<Rightarrow> Inl e
             | Inr d \<Rightarrow>
                 scan F C h ((note_offset F ln st)\<lparr>last_epoch := Some (r + I), data := d\<rparr>) g')
          else Inl OverflowError)"
proof (cases "last_epoch st")
  case None
  with assms show ?thesis by (simp add: scan.simps decimate_def)
next
  case (Some r)
  with assms show ?thesis by (simp add: scan.simps decimate_def dt_add_def note_offset_last)
qed

lemma scan_times_spaced:
  fixes F :: "'f floatlib"
  assumes run: "scan F C h st f = Inr st'" and iv: "interval C = Some I" and I: "0 \<le> I"
    and init: "last_epoch st = None" "ds_time (data st) = []"
  shows "ds_time (data st') = []
     \<or> (\<exists>ln \<in> set f. \<exists>t0. timeobs F ln = Inr t0 \<and> tlim_check (tlim C) t0 = Pass
           \<and> (\<forall>t \<in> set (ds_time (data st')). t = t0 \<or> t0 + I \<le> t))"
proof -
  let ?P = "\<lambda>st :: 'f scan_state. (last_epoch st = None \<and> ds_time (data st) = [])
     \<or> (\<exists>ln \<in> set f. \<exists>t0 k. timeobs F ln = Inr t0 \<and> tlim_check (tlim C) t0 = Pass
           \<and> last_epoch st = Some (t0 + int k * I)
           \<and> (\<forall>t \<in> set (ds_time (data st)). t = t0 \<or> t0 + I \<le> t))"
  have "?P st'"
  proof (rule scan_invariant [where L = "set f" and P = ?P, OF run subset_refl])
    show "?P st" using init by simp
  next
    fix st :: "'f scan_state" and ln
    assume "?P st"
    then show "?P (note_offset F ln st)" by simp
  next
    fix st :: "'f scan_state" and ln t le
    assume "?P st" and "decimate (interval C) (last_epoch st) t = Inr (False, le)"
    then show "?P ((note_offset F ln st)\<lparr>last_epoch := le\<rparr>)"
      by (auto dest: decimate_drop)
  next
    fix st :: "'f scan_state" and ln t le sv raw d
    assume P: "?P st" and ln: "ln \<in> set f" and tm: "timeobs F ln = Inr t"
      and pass: "tlim_check (tlim C) t = Pass"
      and dec: "decimate (interval C) (last_epoch st) t = Inr (True, le)"
      and e: "epoch (data st) raw h t sv (useindicators C) = Inr d"
    note sub = epoch_time [OF e]
    have "\<exists>l \<in> set f. \<exists>t0 k. timeobs F l = Inr t0 \<and> tlim_check (tlim C) t0 = Pass
           \<and> le = Some (t0 + int k * I)
           \<and> (\<forall>t \<in> set (ds_time d). t = t0 \<or> t0 + I \<le> t)"
    proof (cases "last_epoch st")
      case None
      with P have "ds_time (data st) = []" by auto
      with sub have a: "\<forall>x \<in> set (ds_time d). x = t \<or> t + I \<le> x" by auto
      from dec None iv have "le = Some (t + int 0 * I)" by (simp add: decimate_def)
      with ln tm pass a show ?thesis by blast
    next
      case (Some x)
      with P obtain l t0 k where l: "l \<in> set f" "timeobs F l = Inr t0"
          "tlim_check (tlim C) t0 = Pass"
        and x: "x = t0 + int k * I"
        and old: "\<forall>t \<in> set (ds_time (data st)). t = t0 \<or> t0 + I \<le> t"
        by auto
      from dec Some iv have "decimate (Some I) (Some x) t = Inr (True, le)" by simp
      from decimate_keep [OF this] have k: "I \<le> t - x" and le: "le = Some (x + I)" by simp_all
      from le x have le': "le = Some (t0 + int (Suc k) * I)" by (simp add: algebra_simps)
      have "0 \<le> int k * I" using I by simp
      with k x have "t0 + I \<le> t" by simp
      with old sub have "\<forall>t \<in> set (ds_time d). t = t0 \<or> t0 + I \<le> t" by auto
      with l le' show ?thesis by blast
    qed
    then show "?P ((note_offset F ln st)\<lparr>last_epoch := le, data := d\<rparr>)" by simp
  qed
  then show ?thesis by auto
qed

text \<open>
  C1, as the code has it. At an epoch line that passes the time window, with an interval
  \<open>I\<close>: when there is no reference yet, the epoch is kept and its time becomes the reference.
  Otherwise the epoch is dropped, the reference and the dataset staying as they are,
  exactly when its time is less than \<open>I\<close> after the reference (not after the previously kept
  epoch); when it is kept, the reference moves by exactly \<open>I\<close> (\<^verbatim>\<open>OverflowError\<close> when that
  leaves the range of \<^verbatim>\<open>datetime\<close>). So after a scan the reference is the time of one epoch
  line of the file plus a multiple of \<open>I\<close>; and, for a non-negative \<open>I\<close>, every time in the
  result of \<^verbatim>\<open>rinexobs3\<close> is the time \<open>t0\<close> of one epoch line within the window, or at least
  \<open>I\<close> later than \<open>t0\<close>.
\<close>

theorem decimation_reference:
  "(interval C = Some I \<and> startswith ln ''>'' \<and> timeobs F ln = Inr t
      \<and> tlim_check (tlim C) t = Pass \<and> py_int (py_slice ln 33 35) = Some n
      \<and> read_sats (nat n) g [] [] = (sv, raw, g') \<longrightarrow>
      scan F C h st (ln # g) =
        (case last_epoch st of
           None \<Rightarrow>
             (case epoch (data st) raw h t sv (useindicators C) of
                Inl e \<Rightarrow> Inl e
              | Inr d \<Rightarrow> scan F C h ((note_offset F ln st)\<lparr>last_epoch := Some t, data := d\<rparr>) g')
         | Some r \<Rightarrow>
             if t - r < I then scan F C h (note_offset F ln st) g'
             else if 0 \<le> r + I \<and> r + I < max_us then
               (case epoch (data st) raw h t sv (useindicators C) of
                  Inl e \<Rightarrow> Inl e
                | Inr d \<Rightarrow>
                    scan F C h ((note_offset F ln st)\<lparr>last_epoch := Some (r + I), data := d\<rparr>) g')
             else Inl OverflowError))
   \<and> (interval C = Some I \<and> last_epoch st = Some r \<and> scan F C h st f = Inr st' \<longrightarrow>
        (\<exists>k. last_epoch st' = Some (r + int k * I)))
   \<and> (interval C = Some I \<and> last_epoch st = None \<and> scan F C h st f = Inr st' \<longrightarrow>
        last_epoch st' = None
        \<or> (\<exists>ln \<in> set f. \<exists>t0 k. timeobs F ln = Inr t0 \<and> last_epoch st' = Some (t0 + int k * I)))
   \<and> (rinexobs3 F U info f use w ui meas (Some I) = Inr d \<and> 0 \<le> I \<longrightarrow>
        ds_time d = []
        \<or> (\<exists>h f'. obsheader3 F U info f (norm_use use) (norm_meas meas) = Inr (h, f')
             \<and> (\<exists>ln \<in> set f'. \<exists>t0. timeobs F ln = Inr t0 \<and> tlim_check w t0 = Pass
                   \<and> (\<forall>t \<in> set (ds_time d). t = t0 \<or> t0 + I \<le> t))))"
proof (intro conjI impI)
  assume a: "interval C = Some I \<and> startswith ln ''>'' \<and> timeobs F ln = Inr t
      \<and> tlim_check (tlim C) t = Pass \<and> py_int (py_slice ln 33 35) = Some n
      \<and> read_sats (nat n) g [] [] = (sv, raw, g')"
  then have 1: "interval C = Some I" and 2: "startswith ln ''>''" and 3: "timeobs F ln = Inr t"
    and 4: "tlim_check (tlim C) t = Pass" and 5: "py_int (py_slice ln 33 35) = Some n"
    and 6: "read_sats (nat n) g [] [] = (sv, raw, g')"
    by simp_all
  show "scan F C h st (ln # g) =
        (case last_epoch st of
           None \<Rightarrow>
             (case epoch (data st) raw h t sv (useindicators C) of
                Inl e \<Rightarrow> Inl e
              | Inr d \<Rightarrow> scan F C h ((note_offset F ln st)\<lparr>last_epoch := Some t, data := d\<rparr>) g')
         | Some r \<Rightarrow>
             if t - r < I then scan F C h (note_offset F ln st) g'
             else if 0 \<le> r + I \<and> r + I < max_us then
               (case epoch (data st) raw h t sv (useindicators C) of
                  Inl e \<Rightarrow> Inl e
                | Inr d \<Rightarrow>
                    scan F C h ((note_offset F ln st)\<lparr>last_epoch := Some (r + I), data := d\<rparr>) g')
             else Inl OverflowError)"
    by (rule scan_decimation_step [OF 1 2 3 4 5 6])
next
  show "\<exists>k. last_epoch st' = Some (r + int k * I)"
    if a: "interval C = Some I \<and> last_epoch st = Some r \<and> scan F C h st f = Inr st'"
    by (rule scan_reference_from [OF a [THEN conjunct2, THEN conjunct2] a [THEN conjunct1]
          a [THEN conjunct2, THEN conjunct1]])
  show "last_epoch st' = None
        \<or> (\<exists>ln \<in> set f. \<exists>t0 k. timeobs F ln = Inr t0 \<and> last_epoch st' = Some (t0 + int k * I))"
    if a: "interval C = Some I \<and> last_epoch st = None \<and> scan F C h st f = Inr st'"
    by (rule scan_reference_first [OF a [THEN conjunct2, THEN conjunct2] a [THEN conjunct1]
          a [THEN conjunct2, THEN conjunct1]])
next
  assume a: "rinexobs3 F U info f use w ui meas (Some I) = Inr d \<and> 0 \<le> I"
  from rinexobs3_scan [OF a [THEN conjunct1]] obtain h f' st where
    o: "obsheader3 F U info f (norm_use use) (norm_meas meas) = Inr (h, f')"
    and s: "scan F \<lparr>tlim = w, interval = Some I, useindicators = ui\<rparr> h init_state f' = Inr st"
    and d: "d = patch_sv (data st)"
    by blast
  have t: "ds_time d = ds_time (data st)" by (simp add: d patch_sv_def)
  from scan_times_spaced [OF s _ a [THEN conjunct2]]
  have "ds_time (data st) = []
     \<or> (\<exists>ln \<in> set f'. \<exists>t0. timeobs F ln = Inr t0 \<and> tlim_check w t0 = Pass
           \<and> (\<forall>t \<in> set (ds_time (data st)). t = t0 \<or> t0 + I \<le> t))"
    by (simp add: init_state_def empty_dataset_def)
  with o show "ds_time d = []
        \<or> (\<exists>h f'. obsheader3 F U info f (norm_use use) (norm_meas meas) = Inr (h, f')
             \<and> (\<exists>ln \<in> set f'. \<exists>t0. timeobs F ln = Inr t0 \<and> tlim_check w t0 = Pass
                   \<and> (\<forall>t \<in> set (ds_time d). t = t0 \<or> t0 + I \<le> t)))"
    unfolding t by blast
qed

text \<open>
  Reference 0 s, interval 10 s: the epoch at 5 s is dropped and the reference stays; the
  epoch at 25 s is kept and the reference moves to 10 s.
\<close>

theorem decimation_reference_witness:
  "scan decimal_floats \<lparr>tlim = None, interval = Some 10000000, useindicators = False\<rparr> demo_hdr
       \<lparr>last_epoch = Some 63713433600000000, time_offset = [],
        data = \<lparr>ds_vars = [''C1C'', ''L1C''], ds_time = [63713433600000000], ds_sv = [''G 7'']\<rparr>\<rparr>
       [line_epoch_05, line_sat_G07, line_epoch_25, line_sat_G07]
     = Inr \<lparr>last_epoch = Some 63713433610000000, time_offset = [],
            data = \<lparr>ds_vars = [''C1C'', ''L1C''],
                    ds_time = [63713433600000000, 63713433625000000], ds_sv = [''G 7'']\<rparr>\<rparr>
   \<and> (63713433605000000 :: int) - 63713433600000000 < 10000000
   \<and> (10000000 :: int) \<le> 63713433625000000 - 63713433600000000"
proof -
  let ?C = "\<lparr>tlim = None, interval = Some 10000000, useindicators = False\<rparr>"
  let ?st = "\<lparr>last_epoch = Some 63713433600000000, time_offset = [],
        data = \<lparr>ds_vars = [''C1C'', ''L1C''], ds_time = [63713433600000000], ds_sv = [''G 7'']\<rparr>\<rparr>
     :: sample_float scan_state"
  have hyp: "interval ?C = Some 10000000 \<and> startswith line_epoch_05 ''>''
      \<and> timeobs decimal_floats line_epoch_05 = Inr 63713433605000000
      \<and> tlim_check (tlim ?C) 63713433605000000 = Pass
      \<and> py_int (py_slice line_epoch_05 33 35) = Some 1
      \<and> read_sats (nat 1) [line_sat_G07, line_epoch_25, line_sat_G07] [] []
          = ([''G 7''], drop 3 line_sat_G07, [line_epoch_25, line_sat_G07])"
    by code_simp
  have o: "note_offset decimal_floats line_epoch_05 ?st = ?st" by code_simp
  have rest: "scan decimal_floats ?C demo_hdr ?st [line_epoch_25, line_sat_G07]
     = Inr \<lparr>last_epoch = Some 63713433610000000, time_offset = [],
            data = \<lparr>ds_vars = [''C1C'', ''L1C''],
                    ds_time = [63713433600000000, 63713433625000000], ds_sv = [''G 7'']\<rparr>\<rparr>"
    by code_simp
  from decimation_reference [THEN conjunct1, THEN mp, OF hyp, of demo_hdr ?st]
  have "scan decimal_floats ?C demo_hdr ?st
          [line_epoch_05, line_sat_G07, line_epoch_25, line_sat_G07]
        = scan decimal_floats ?C demo_hdr ?st [line_epoch_25, line_sat_G07]"
    by (simp add: o)
  with rest show ?thesis by simp
qed

text \<open>
  C1 as stated fails after a gap: with an interval of 10 s the epochs at 0 s, 25 s and 26 s
  are all in the result, the last two one second apart.
\<close>

theorem decimation_spacing_counterexample:
  "rinexobs3 decimal_floats zero_memory [] demo_file UseNone None False MeasNone (Some 10000000)
     = Inr \<lparr>ds_vars = [''C1C'', ''L1C''],
            ds_time = [63713433600000000, 63713433625000000, 63713433626000000],
            ds_sv = [''G07'']\<rparr>
   \<and> (63713433626000000 :: int) - 63713433625000000 < 10000000"
  by code_simp

section \<open>Satellite identifiers in the result\<close>

lemma sat_id_written_np_str: "sat_id_written s \<Longrightarrow> np_str s = s"
  by (auto simp: sat_id_written_def np_str_def isdigit_def split: list.splits)

lemma sat_id_written_patch:
  "sat_id_written s \<Longrightarrow> sat_id_padded (replace_char CHR '' '' CHR ''0'' s)"
  by (auto simp: sat_id_written_def sat_id_padded_def replace_char_def isdigit_def isupper_def
           split: list.splits)

lemma scan_sat_ids:
  fixes F :: "'f floatlib"
  assumes "scan F C h st f = Inr st'"
    and valid: "\<forall>ln \<in> set f. (\<exists>sk \<in> set (keys (hfields h)). contains (take 1 ln) sk)
                  \<longrightarrow> sat_id_written (take 3 ln)"
    and "\<forall>s \<in> set (ds_sv (data st)). sat_id_written s"
  shows "\<forall>s \<in> set (ds_sv (data st')). sat_id_written s"
proof (rule scan_invariant [where P = "\<lambda>st. \<forall>s \<in> set (ds_sv (data st)). sat_id_written s"
      and L = "set f", OF assms(1) subset_refl assms(3)])
  fix st :: "'f scan_state" and ln t le sv raw d
  assume P: "\<forall>s \<in> set (ds_sv (data st)). sat_id_written s"
    and sv: "set sv \<subseteq> insert [] ((take 3) ` set f)"
    and e: "epoch (data st) raw h t sv (useindicators C) = Inr d"
  have "sat_id_written x" if "x \<in> set (ds_sv d)" for x
  proof -
    from epoch_sv [OF e] that
    consider "x \<in> set (ds_sv (data st))"
      | s where "x = np_str s" "s \<in> set sv" "s \<noteq> []"
          "\<exists>sk \<in> set (keys (hfields h)). contains (take 1 s) sk"
      by blast
    then show ?thesis
    proof cases
      case 1
      with P show ?thesis by simp
    next
      case 2
      with sv obtain ln where ln: "ln \<in> set f" "s = take 3 ln" by blast
      with 2 have "\<exists>sk \<in> set (keys (hfields h)). contains (take 1 ln) sk" by simp
      with valid ln have "sat_id_written s" by simp
      with 2 show ?thesis by (simp add: sat_id_written_np_str)
    qed
  qed
  then show "\<forall>s \<in> set (ds_sv (data ((note_offset F ln st)\<lparr>last_epoch := le, data := d\<rparr>))). sat_id_written s"
    by simp
qed simp_all

lemma scan_sv_source:
  fixes F :: "'f floatlib"
  assumes "scan F C h st f = Inr st'" and "ds_sv (data st) = []"
  shows "\<forall>s \<in> set (ds_sv (data st')). \<exists>ln \<in> set f. s = np_str (take 3 ln) \<and> ln \<noteq> []
            \<and> (\<exists>sk \<in> set (keys (hfields h)). contains (take 1 ln) sk)"
proof (rule scan_invariant [where L = "set f" and
      P = "\<lambda>st. \<forall>s \<in> set (ds_sv (data st)). \<exists>ln \<in> set f. s = np_str (take 3 ln) \<and> ln \<noteq> []
            \<and> (\<exists>sk \<in> set (keys (hfields h)). contains (take 1 ln) sk)",
      OF assms(1) subset_refl])
  show "\<forall>s \<in> set (ds_sv (data st)). \<exists>ln \<in> set f. s = np_str (take 3 ln) \<and> ln \<noteq> []
            \<and> (\<exists>sk \<in> set (keys (hfields h)). contains (take 1 ln) sk)"
    using assms(2) by simp
next
  fix st :: "'f scan_state" and ln t le sv raw d
  assume P: "\<forall>s \<in> set (ds_sv (data st)). \<exists>ln \<in> set f. s = np_str (take 3 ln) \<and> ln \<noteq> []
            \<and> (\<exists>sk \<in> set (keys (hfields h)). contains (take 1 ln) sk)"
    and sv: "set sv \<subseteq> insert [] ((take 3) ` set f)"
    and e: "epoch (data st) raw h t sv (useindicators C) = Inr d"
  have "\<exists>ln \<in> set f. x = np_str (take 3 ln) \<and> ln \<noteq> []
            \<and> (\<exists>sk \<in> set (keys (hfields h)). contains (take 1 ln) sk)"
    if "x \<in> set (ds_sv d)" for x
  proof -
    from epoch_sv [OF e] that
    consider "x \<in> set (ds_sv (data st))"
      | s where "x = np_str s" "s \<in> set sv" "s \<noteq> []"
          "\<exists>sk \<in> set (keys (hfields h)). contains (take 1 s) sk"
      by blast
    then show ?thesis
    proof cases
      case 1
      with P show ?thesis by simp
    next
      case 2
      with sv obtain l where l: "l \<in> set f" "s = take 3 l" by blast
      with 2 have "l \<noteq> []" by auto
      moreover from 2 l have "\<exists>sk \<in> set (keys (hfields h)). contains (take 1 l) sk" by simp
      ultimately show ?thesis using 2(1) l by blast
    qed
  qed
  then show "\<forall>s \<in> set (ds_sv (data ((note_offset F ln st)\<lparr>last_epoch := le, data := d\<rparr>))).
        \<exists>ln \<in> set f. s = np_str (take 3 ln) \<and> ln \<noteq> []
            \<and> (\<exists>sk \<in> set (keys (hfields h)). contains (take 1 ln) sk)"
    by simp
qed simp_all

text \<open>
  C6. The satellite identifiers of the result are those the scan collected, each with every
  blank replaced by \<^verbatim>\<open>0\<close>, and nothing else of the dataset changes: \<^verbatim>\<open>G 7\<close> becomes \<^verbatim>\<open>G07\<close>, and
  no identifier of the result contains a blank. Each collected identifier is the first three
  characters of a line of the data section that begins with the code of a retained system.
  In a valid file, where every such line begins with a letter and two positions holding a
  digit or a blank, every identifier of the result is an uppercase letter followed by
  exactly two digits.
\<close>

theorem satellite_ids_padded:
  "(rinexobs3 F U info f use w ui meas iv = Inr d \<longrightarrow>
      (\<exists>h f' st. obsheader3 F U info f (norm_use use) (norm_meas meas) = Inr (h, f')
         \<and> scan F \<lparr>tlim = w, interval = iv, useindicators = ui\<rparr> h init_state f' = Inr st
         \<and> ds_sv d = map (replace_char CHR '' '' CHR ''0'') (ds_sv (data st))
         \<and> ds_vars d = ds_vars (data st) \<and> ds_time d = ds_time (data st)
         \<and> (\<forall>s \<in> set (ds_sv (data st)). \<exists>ln \<in> set f'. s = np_str (take 3 ln) \<and> ln \<noteq> []
               \<and> (\<exists>sk \<in> set (keys (hfields h)). contains (take 1 ln) sk))))
   \<and> (rinexobs3 F U info f use w ui meas iv = Inr d \<longrightarrow> (\<forall>s \<in> set (ds_sv d). CHR '' '' \<notin> set s))
   \<and> replace_char CHR '' '' CHR ''0'' ''G 7'' = ''G07''
   \<and> (obsheader3 F U info f (norm_use use) (norm_meas meas) = Inr (h, f')
        \<and> (\<forall>ln \<in> set f'. (\<exists>sk \<in> set (keys (hfields h)). contains (take 1 ln) sk)
                  \<longrightarrow> sat_id_written (take 3 ln))
        \<and> rinexobs3 F U info f use w ui meas iv = Inr d
      \<longrightarrow> (\<forall>s \<in> set (ds_sv d). sat_id_padded s))"
proof (intro conjI impI)
  assume r: "rinexobs3 F U info f use w ui meas iv = Inr d"
  from rinexobs3_scan [OF r] obtain h f' st where
    o: "obsheader3 F U info f (norm_use use) (norm_meas meas) = Inr (h, f')"
    and s: "scan F \<lparr>tlim = w, interval = iv, useindicators = ui\<rparr> h init_state f' = Inr st"
    and d: "d = patch_sv (data st)"
    by blast
  have "\<forall>s \<in> set (ds_sv (data st)). \<exists>ln \<in> set f'. s = np_str (take 3 ln) \<and> ln \<noteq> []
               \<and> (\<exists>sk \<in> set (keys (hfields h)). contains (take 1 ln) sk)"
    by (rule scan_sv_source [OF s]) (simp add: init_state_def empty_dataset_def)
  moreover have "ds_sv d = map (replace_char CHR '' '' CHR ''0'') (ds_sv (data st))"
    "ds_vars d = ds_vars (data st)" "ds_time d = ds_time (data st)"
    by (simp_all add: d patch_sv_def)
  ultimately show "\<exists>h f' st. obsheader3 F U info f (norm_use use) (norm_meas meas) = Inr (h, f')
         \<and> scan F \<lparr>tlim = w, interval = iv, useindicators = ui\<rparr> h init_state f' = Inr st
         \<and> ds_sv d = map (replace_char CHR '' '' CHR ''0'') (ds_sv (data st))
         \<and> ds_vars d = ds_vars (data st) \<and> ds_time d = ds_time (data st)
         \<and> (\<forall>s \<in> set (ds_sv (data st)). \<exists>ln \<in> set f'. s = np_str (take 3 ln) \<and> ln \<noteq> []
               \<and> (\<exists>sk \<in> set (keys (hfields h)). contains (take 1 ln) sk))"
    using o s by blast
next
  assume "rinexobs3 F U info f use w ui meas iv = Inr d"
  then obtain d0 where "d = patch_sv d0"
    by (auto simp: rinexobs3_def split: sum.splits prod.splits)
  then show "\<forall>s \<in> set (ds_sv d). CHR '' '' \<notin> set s"
    by (auto simp: patch_sv_def replace_char_def)
next
  show "replace_char CHR '' '' CHR ''0'' ''G 7'' = ''G07''" by (simp add: replace_char_def)
next
  assume a: "obsheader3 F U info f (norm_use use) (norm_meas meas) = Inr (h, f')
        \<and> (\<forall>ln \<in> set f'. (\<exists>sk \<in> set (keys (hfields h)). contains (take 1 ln) sk)
                  \<longrightarrow> sat_id_written (take 3 ln))
        \<and> rinexobs3 F U info f use w ui meas iv = Inr d"
  then obtain st' where
    s: "scan F \<lparr>tlim = w, interval = iv, useindicators = ui\<rparr> h init_state f' = Inr st'"
    and d: "d = patch_sv (data st')"
    by (auto simp: rinexobs3_def split: sum.splits prod.splits)
  from a have v: "\<forall>ln \<in> set f'. (\<exists>sk \<in> set (keys (hfields h)). contains (take 1 ln) sk)
                  \<longrightarrow> sat_id_written (take 3 ln)" by blast
  have "\<forall>s \<in> set (ds_sv (data st')). sat_id_written s"
    by (rule scan_sat_ids [OF s v]) (simp add: init_state_def empty_dataset_def)
  with d show "\<forall>s \<in> set (ds_sv d). sat_id_padded s"
    by (auto simp: patch_sv_def sat_id_written_patch)
qed

text \<open>The example file writes its satellite as \<^verbatim>\<open>G 7\<close>, and so the scan collects it.\<close>

theorem satellite_ids_padded_witness:
  "rinexobs3 decimal_floats zero_memory [] demo_file UseNone None False MeasNone None
     = Inr \<lparr>ds_vars = [''C1C'', ''L1C''],
            ds_time = [63713433600000000, 63713433625000000, 63713433626000000],
            ds_sv = [''G07'']\<rparr>
   \<and> sat_id_padded ''G07''
   \<and> scan decimal_floats \<lparr>tlim = None, interval = None, useindicators = False\<rparr> demo_hdr init_state
       demo_body
     = Inr \<lparr>last_epoch = None, time_offset = [],
            data = \<lparr>ds_vars = [''C1C'', ''L1C''],
                    ds_time = [63713433600000000, 63713433625000000, 63713433626000000],
                    ds_sv = [''G 7'']\<rparr>\<rparr>"
proof -
  have o: "obsheader3 decimal_floats zero_memory [] demo_file (norm_use UseNone) (norm_meas MeasNone)
             = Inr (demo_hdr, demo_body)"
    by code_simp
  have v: "\<forall>ln \<in> set demo_body. (\<exists>sk \<in> set (keys (hfields demo_hdr)). contains (take 1 ln) sk)
                  \<longrightarrow> sat_id_written (take 3 ln)"
    by code_simp
  have r: "rinexobs3 decimal_floats zero_memory [] demo_file UseNone None False MeasNone None
     = Inr \<lparr>ds_vars = [''C1C'', ''L1C''],
            ds_time = [63713433600000000, 63713433625000000, 63713433626000000],
            ds_sv = [''G07'']\<rparr>"
    by code_simp
  have s: "scan decimal_floats \<lparr>tlim = None, interval = None, useindicators = False\<rparr> demo_hdr
       init_state demo_body
     = Inr \<lparr>last_epoch = None, time_offset = [],
            data = \<lparr>ds_vars = [''C1C'', ''L1C''],
                    ds_time = [63713433600000000, 63713433625000000, 63713433626000000],
                    ds_sv = [''G 7'']\<rparr>\<rparr>"
    by code_simp
  from satellite_ids_padded [THEN conjunct2, THEN conjunct2, THEN conjunct2, THEN mp,
      OF conjI [OF o conjI [OF v r]]]
  have "sat_id_padded ''G07''" by simp
  with r s show ?thesis by (simp only: simp_thms)
qed

end
